theory Spec2Isabelle
  imports Complex_Main
begin


section \<open>JavaScript numbers\<close>

text \<open>
  The coordinates of \<^verbatim>\<open>Map.tsx\<close> are JavaScript numbers. A number is \<^verbatim>\<open>NaN\<close>, one of the
  two infinities, negative zero, or a finite value. A finite value is carried by its
  mathematical value; \<open>Fin 0\<close> is positive zero. The finite values a program meets are
  binary64 values: \<^verbatim>\<open>Number\<close> rounds the value of a literal to the nearest binary64 value
  (\<open>binary64\<close> below, with overflow to an infinity and underflow to zero), the handlers
  only store and compare, and \<^verbatim>\<open>Math.min\<close>, \<^verbatim>\<open>Math.max\<close>, \<^verbatim>\<open>===\<close> and \<^verbatim>\<open>isNaN\<close> are exact
  functions of the values they are given. The number formatter reads its argument as the
  binary64 value it is.
\<close>

datatype jsnum = NaN | NegInf | NegZero | Fin real | PosInf

definition isNaN :: "jsnum \<Rightarrow> bool" where
  "isNaN x = (x = NaN)"

definition isFinite :: "jsnum \<Rightarrow> bool" where
  "isFinite x = (x \<noteq> NaN \<and> x \<noteq> NegInf \<and> x \<noteq> PosInf)"

text \<open>The extended real line under the numbers: \<open>rank\<close> places the infinities, \<open>mv\<close> is the
  mathematical value of a finite number (both zeros have value 0).\<close>

fun rank :: "jsnum \<Rightarrow> int" where
  "rank NegInf = -1"
| "rank PosInf = 1"
| "rank _ = 0"

fun mv :: "jsnum \<Rightarrow> real" where
  "mv (Fin q) = q"
| "mv _ = 0"

text \<open>The comparisons \<^verbatim>\<open><\<close>, \<^verbatim>\<open><=\<close> and \<^verbatim>\<open>===\<close> on numbers: false as soon as an operand is
  \<^verbatim>\<open>NaN\<close>, and blind to the sign of zero.\<close>

definition js_lt :: "jsnum \<Rightarrow> jsnum \<Rightarrow> bool" where
  "js_lt a b = (a \<noteq> NaN \<and> b \<noteq> NaN \<and> (rank a < rank b \<or> (rank a = rank b \<and> mv a < mv b)))"

definition js_le :: "jsnum \<Rightarrow> jsnum \<Rightarrow> bool" where
  "js_le a b = (a \<noteq> NaN \<and> b \<noteq> NaN \<and> (rank a < rank b \<or> (rank a = rank b \<and> mv a \<le> mv b)))"

definition strict_eq :: "jsnum \<Rightarrow> jsnum \<Rightarrow> bool" where
  "strict_eq a b = (a \<noteq> NaN \<and> b \<noteq> NaN \<and> rank a = rank b \<and> mv a = mv b)"

text \<open>\<^verbatim>\<open>Math.min(a, b)\<close> and \<^verbatim>\<open>Math.max(a, b)\<close>: \<^verbatim>\<open>NaN\<close> if an argument is \<^verbatim>\<open>NaN\<close>; negative zero
  counts as smaller than positive zero; otherwise the running extreme is replaced only by a
  strictly smaller (larger) argument.\<close>

definition Math_min :: "jsnum \<Rightarrow> jsnum \<Rightarrow> jsnum" where
  "Math_min a b =
     (if a = NaN \<or> b = NaN then NaN
      else if b = NegZero \<and> a = Fin 0 then NegZero
      else if js_lt b a then b else a)"

definition Math_max :: "jsnum \<Rightarrow> jsnum \<Rightarrow> jsnum" where
  "Math_max a b =
     (if a = NaN \<or> b = NaN then NaN
      else if b = Fin 0 \<and> a = NegZero then Fin 0
      else if js_lt a b then b else a)"


section \<open>Binary64 values\<close>

text \<open>
  The numbers of JavaScript are the values of IEEE 754 binary64. \<open>exponent_of b a\<close> is, for
  a base \<open>b > 1\<close> and \<open>a > 0\<close>, the integer \<open>e\<close> with \<open>b^e \<le> a < b^(e+1)\<close>.
\<close>

function exponent_of :: "real \<Rightarrow> real \<Rightarrow> int" where
  "exponent_of b a =
     (if b \<le> 1 \<or> a \<le> 0 then 0
      else if a < 1 then exponent_of b (a * b) - 1
      else if b \<le> a then exponent_of b (a / b) + 1
      else 0)"
  by pat_completeness auto

termination
proof (relation "measure (\<lambda>(b, a). nat \<lceil>\<bar>log b a\<bar>\<rceil> + (if a < 1 \<or> b \<le> a then 1 else 0))")
  show "wf (measure (\<lambda>(b, a). nat \<lceil>\<bar>log b a\<bar>\<rceil> + (if a < 1 \<or> b \<le> a then 1 else 0)))"
    by simp
next
  fix b a :: real
  assume "\<not> (b \<le> 1 \<or> a \<le> 0)" and a1: "a < 1"
  then have b: "1 < b" and a: "0 < a" by simp_all
  have L: "log b (a * b) = log b a + 1"
    using a b by (simp add: log_mult)
  have neg: "log b a < 0"
    using a a1 b by simp
  show "((b, a * b), (b, a)) \<in> measure (\<lambda>(b, a). nat \<lceil>\<bar>log b a\<bar>\<rceil> + (if a < 1 \<or> b \<le> a then 1 else 0))"
  proof (cases "a * b < 1")
    case True
    then have "log b (a * b) < 0"
      using a b by simp
    then have "\<bar>log b (a * b)\<bar> = \<bar>log b a\<bar> - 1"
      using neg L by simp
    then have "\<lceil>\<bar>log b (a * b)\<bar>\<rceil> = \<lceil>\<bar>log b a\<bar>\<rceil> - 1"
      by simp
    moreover have "0 < \<lceil>\<bar>log b a\<bar>\<rceil>"
      using neg by simp
    ultimately show ?thesis
      using True a1 by simp
  next
    case False
    have "a * b < b"
      using a1 b by simp
    then have "log b (a * b) < 1"
      using a b by (simp add: L)
    moreover have "0 \<le> log b (a * b)"
      using False a b by simp
    ultimately have "\<lceil>\<bar>log b (a * b)\<bar>\<rceil> \<le> 1"
      by (simp add: ceiling_le_iff)
    then have l: "nat \<lceil>\<bar>log b (a * b)\<bar>\<rceil> \<le> 1"
      by simp
    have "0 < \<lceil>\<bar>log b a\<bar>\<rceil>"
      using neg by simp
    then have r: "1 \<le> nat \<lceil>\<bar>log b a\<bar>\<rceil>"
      by linarith
    have c: "\<not> (a * b < 1 \<or> b \<le> a * b)" "a < 1 \<or> b \<le> a"
      using False a1 \<open>a * b < b\<close> by simp_all
    show ?thesis
      unfolding in_measure prod.case using l r by (simp only: c if_True if_False)
  qed
next
  fix b a :: real
  assume "\<not> (b \<le> 1 \<or> a \<le> 0)" and "\<not> a < 1" and ba: "b \<le> a"
  then have b: "1 < b" and a: "0 < a" by simp_all
  have L: "log b (a / b) = log b a - 1"
    using a b by (simp add: log_divide)
  have pos: "1 \<le> log b a"
    using a b ba by (simp add: le_log_iff)
  show "((b, a / b), (b, a)) \<in> measure (\<lambda>(b, a). nat \<lceil>\<bar>log b a\<bar>\<rceil> + (if a < 1 \<or> b \<le> a then 1 else 0))"
  proof (cases "b \<le> a / b")
    case True
    have "\<bar>log b (a / b)\<bar> = \<bar>log b a\<bar> - 1"
      using pos L by simp
    then have "\<lceil>\<bar>log b (a / b)\<bar>\<rceil> = \<lceil>\<bar>log b a\<bar>\<rceil> - 1"
      by simp
    moreover have "0 < \<lceil>\<bar>log b a\<bar>\<rceil>"
      using pos by simp
    ultimately show ?thesis
      using True ba by simp
  next
    case False
    have one: "1 \<le> a / b"
      using ba b by simp
    have "log b (a / b) < 1"
      using False a b by (simp add: log_less_iff)
    moreover have "0 \<le> log b (a / b)"
      using pos L by simp
    ultimately have "\<lceil>\<bar>log b (a / b)\<bar>\<rceil> \<le> 1"
      by (simp add: ceiling_le_iff)
    then have l: "nat \<lceil>\<bar>log b (a / b)\<bar>\<rceil> \<le> 1"
      by simp
    have "0 < \<lceil>\<bar>log b a\<bar>\<rceil>"
      using pos by simp
    then have r: "1 \<le> nat \<lceil>\<bar>log b a\<bar>\<rceil>"
      by linarith
    have c: "\<not> (a / b < 1 \<or> b \<le> a / b)" "a < 1 \<or> b \<le> a"
      using False ba one by simp_all
    show ?thesis
      unfolding in_measure prod.case using l r by (simp only: c if_True if_False)
  qed
qed

declare exponent_of.simps [simp del]

text \<open>
  A binary64 value other than zero is a significand of at most 53 bits times a power of
  two: a whole multiple of \<open>2^(e - 52)\<close> in the binade \<open>2^e \<le> a < 2^(e+1)\<close>, where \<open>e\<close> is at
  least \<open>-1022\<close>; below \<open>2^(-1022)\<close> lie the subnormal values, whole multiples of \<open>2^(-1074)\<close>.
  \<open>round_magnitude\<close> rounds a magnitude to the nearest such multiple, a tie going to the
  even significand (roundTiesToEven). \<open>binary64\<close> is RoundMVResult of ECMA-262 on a
  magnitude: a rounded value of \<open>2^1024\<close> or more is an overflow and gives infinity; a
  magnitude that rounds to zero gives zero (underflow).
\<close>

definition round_half_even :: "real \<Rightarrow> int" where
  "round_half_even y =
     (if y - of_int \<lfloor>y\<rfloor> < 1 / 2 then \<lfloor>y\<rfloor>
      else if 1 / 2 < y - of_int \<lfloor>y\<rfloor> then \<lfloor>y\<rfloor> + 1
      else if even \<lfloor>y\<rfloor> then \<lfloor>y\<rfloor> else \<lfloor>y\<rfloor> + 1)"

definition binade :: "real \<Rightarrow> int" where
  "binade a = max (exponent_of 2 a) (- 1022)"

definition round_magnitude :: "real \<Rightarrow> real" where
  "round_magnitude a = of_int (round_half_even (a * 2 powi (52 - binade a))) * 2 powi (binade a - 52)"

definition binary64 :: "real \<Rightarrow> jsnum" where
  "binary64 a = (if 2 ^ 1024 \<le> round_magnitude a then PosInf else Fin (round_magnitude a))"

text \<open>A real is a binary64 value if its magnitude rounds to itself.\<close>

definition is_binary64 :: "real \<Rightarrow> bool" where
  "is_binary64 q = (binary64 \<bar>q\<bar> = Fin \<bar>q\<bar>)"

text \<open>The number with the sign changed; the negative of positive zero is negative zero.\<close>

fun negate :: "jsnum \<Rightarrow> jsnum" where
  "negate NaN = NaN"
| "negate NegInf = PosInf"
| "negate PosInf = NegInf"
| "negate NegZero = Fin 0"
| "negate (Fin q) = (if q = 0 then NegZero else Fin (- q))"


section \<open>Strings\<close>

text \<open>
  Strings are lists of characters; a character outside ASCII stands as its UTF-8 bytes.
  \<open>join\<close> is \<^verbatim>\<open>Array.prototype.join\<close>, \<open>split_at\<close> is \<^verbatim>\<open>String.prototype.split\<close> with a
  separator of one character (the source splits at \<^verbatim>\<open>','\<close>): the empty string splits into one
  empty component.
\<close>

fun join :: "string \<Rightarrow> string list \<Rightarrow> string" where
  "join sep [] = []"
| "join sep [x] = x"
| "join sep (x # y # ys) = x @ sep @ join sep (y # ys)"

fun split_at :: "char \<Rightarrow> string \<Rightarrow> string list" where
  "split_at sep [] = [[]]"
| "split_at sep (c # cs) =
     (if c = sep then [] # split_at sep cs
      else (case split_at sep cs of
              [] \<Rightarrow> [[c]]
            | w # ws \<Rightarrow> (c # w) # ws))"

definition digit_table :: "(char \<times> nat) list" where
  "digit_table =
     [(CHR ''0'', 0), (CHR ''1'', 1), (CHR ''2'', 2), (CHR ''3'', 3), (CHR ''4'', 4),
      (CHR ''5'', 5), (CHR ''6'', 6), (CHR ''7'', 7), (CHR ''8'', 8), (CHR ''9'', 9)]"

definition is_digit :: "char \<Rightarrow> bool" where
  "is_digit c = (map_of digit_table c \<noteq> None)"

definition digit_val :: "char \<Rightarrow> nat" where
  "digit_val c = (case map_of digit_table c of Some d \<Rightarrow> d | None \<Rightarrow> 0)"

definition digit_char :: "nat \<Rightarrow> char" where
  "digit_char d = ''0123456789'' ! d"

text \<open>The decimal digits of a natural number, most significant first, and the number a
  string of decimal digits stands for.\<close>

fun string_of_nat :: "nat \<Rightarrow> string" where
  "string_of_nat n =
     (if n < 10 then [digit_char n]
      else string_of_nat (n div 10) @ [digit_char (n mod 10)])"

definition digits_val :: "string \<Rightarrow> nat" where
  "digits_val ds = foldl (\<lambda>a c. 10 * a + digit_val c) 0 ds"


section \<open>Formatting a coordinate\<close>

text \<open>
  \<^verbatim>\<open>formatCoordinate\<close> is \<^verbatim>\<open>new Intl.NumberFormat('en-US', {minimumFractionDigits: 0,
  maximumFractionDigits: 6, useGrouping: false}).format(coord)\<close>. The formatter does not round
  the exact value of the binary64 number. It first takes the decimal digits of the number as
  \<^verbatim>\<open>Number.prototype.toString\<close> gives them: the shortest decimal, of at most 17 significant
  digits, that converts back to the same binary64 value, and of several of that length
  the one nearest to the value. That decimal is then rounded to six fraction digits. So
  the binary64 value nearest to \<open>0.1234565\<close>, which lies just under it, is written
  \<^verbatim>\<open>0.123457\<close>, and \<open>2^70\<close> is written \<^verbatim>\<open>1180591620717411300000\<close>.

  \<open>lower_decimal k d\<close> and \<open>upper_decimal k d\<close> are the two decimals of \<open>k\<close> significant digits
  next to \<open>d\<close>, at or below it and above it; \<open>candidate k d\<close> is the one of them that converts
  back to \<open>d\<close>, the nearer one if both do; \<open>shortest_search\<close> tries \<open>k\<close>, \<open>k + 1\<close>, up to 17
  digits. \<open>shortest_decimal q\<close> is the decimal found for the binary64 value of \<open>q\<close>. For a
  binary64 value one is always found (\<open>shortest_decimal_found\<close> below); the other cases
  keep the function total: should the search fail, or the magnitude lie beyond the
  binary64 range, the result is \<open>q\<close> itself.
\<close>

definition lower_decimal :: "nat \<Rightarrow> real \<Rightarrow> real" where
  "lower_decimal k d =
     of_int \<lfloor>d / 10 powi (exponent_of 10 d + 1 - int k)\<rfloor> * 10 powi (exponent_of 10 d + 1 - int k)"

definition upper_decimal :: "nat \<Rightarrow> real \<Rightarrow> real" where
  "upper_decimal k d = lower_decimal k d + 10 powi (exponent_of 10 d + 1 - int k)"

definition candidate :: "nat \<Rightarrow> real \<Rightarrow> real option" where
  "candidate k d =
     (if binary64 (lower_decimal k d) = Fin d
      then (if binary64 (upper_decimal k d) = Fin d \<and> upper_decimal k d - d < d - lower_decimal k d
            then Some (upper_decimal k d) else Some (lower_decimal k d))
      else if binary64 (upper_decimal k d) = Fin d then Some (upper_decimal k d)
      else None)"

function shortest_search :: "nat \<Rightarrow> real \<Rightarrow> real option" where
  "shortest_search k d =
     (if 17 < k then None
      else (case candidate k d of Some c \<Rightarrow> Some c | None \<Rightarrow> shortest_search (Suc k) d))"
  by pat_completeness auto

termination
  by (relation "measure (\<lambda>(k, d). 18 - k)") auto

declare shortest_search.simps [simp del]

definition shortest_decimal :: "real \<Rightarrow> real" where
  "shortest_decimal q =
     (case binary64 q of
        Fin d \<Rightarrow> (case shortest_search 1 d of Some c \<Rightarrow> c | None \<Rightarrow> q)
      | _ \<Rightarrow> q)"

text \<open>
  The rounding and the digits follow ECMA-402 (FormatNumericToString, ToRawFixed): the
  sign is taken off, the magnitude \<open>x\<close> is rounded to the integer \<open>n\<close> with \<open>n / 10^6\<close> nearest
  to \<open>x\<close>, a tie going to the larger \<open>n\<close> (rounding mode half-expand); the digits of \<open>n\<close> are
  padded with zeros on the left to seven characters and split six from the right;
  trailing zeros of the fraction are removed (at most \<open>6 - 0 = 6\<close> of them) and the decimal
  point with them if no fraction digit is left. The minus sign is written for every
  negative number, also one that rounds to zero, and for negative zero. There are no
  grouping separators. Infinity is the character U+221E, not a number literal; \<^verbatim>\<open>NaN\<close> is
  the three letters.
\<close>

definition strip_trailing_zeros :: "string \<Rightarrow> string" where
  "strip_trailing_zeros b = rev (dropWhile (\<lambda>c. c = CHR ''0'') (rev b))"

definition fixed_digits :: "nat \<Rightarrow> string" where
  "fixed_digits n =
     (let m0 = string_of_nat n;
          m = (if length m0 \<le> 6 then replicate (7 - length m0) (CHR ''0'') @ m0 else m0);
          a = take (length m - 6) m;
          b = strip_trailing_zeros (drop (length m - 6) m)
      in if b = [] then a else a @ ''.'' @ b)"

definition ToRawFixed :: "real \<Rightarrow> string" where
  "ToRawFixed x = fixed_digits (nat \<lfloor>x * 10 ^ 6 + 1 / 2\<rfloor>)"

definition infinity_sign :: string where
  "infinity_sign = [CHR 0xE2, CHR 0x88, CHR 0x9E]"

fun formatCoordinate :: "jsnum \<Rightarrow> string" where
  "formatCoordinate NaN = ''NaN''"
| "formatCoordinate PosInf = infinity_sign"
| "formatCoordinate NegInf = ''-'' @ infinity_sign"
| "formatCoordinate NegZero = ''-'' @ ToRawFixed 0"
| "formatCoordinate (Fin q) =
     (if q < 0 then ''-'' @ ToRawFixed (shortest_decimal (- q)) else ToRawFixed (shortest_decimal q))"


section \<open>Formatting a bounding box\<close>

type_synonym point = "jsnum \<times> jsnum"

datatype coord_order = latLon | lonLat

record format_options =
  separator :: "string option"
  order :: "coord_order option"

definition no_options :: format_options where
  "no_options = \<lparr>separator = None, order = None\<rparr>"

text \<open>\<^verbatim>\<open>formatBoundingBox(start, end, options = {})\<close>, lines 81 to 122 of \<^verbatim>\<open>Map.tsx\<close>. A point is
  the pair \<^verbatim>\<open>[lon, lat]\<close>; \<open>None\<close> is \<^verbatim>\<open>null\<close>; an option left out takes its default.\<close>

definition formatBoundingBox :: "point option \<Rightarrow> point option \<Rightarrow> format_options \<Rightarrow> string" where
  "formatBoundingBox start end' options =
     (let sep = (case separator options of None \<Rightarrow> '','' | Some s \<Rightarrow> s);
          ord = (case order options of None \<Rightarrow> lonLat | Some ord \<Rightarrow> ord)
      in case (start, end') of
           (Some (lon1, lat1), Some (lon2, lat2)) \<Rightarrow>
             (let minLon = Math_min lon1 lon2;
                  minLat = Math_min lat1 lat2;
                  maxLon = Math_max lon1 lon2;
                  maxLat = Math_max lat1 lat2
              in if ord = lonLat
                 then join sep [formatCoordinate minLon, formatCoordinate minLat,
                                formatCoordinate maxLon, formatCoordinate maxLat]
                 else join sep [formatCoordinate minLat, formatCoordinate minLon,
                                formatCoordinate maxLat, formatCoordinate maxLon])
         | _ \<Rightarrow> [])"


section \<open>Converting a string to a number\<close>

text \<open>
  \<^verbatim>\<open>Number(s)\<close> on a string is StringToNumber of ECMA-262: white space is trimmed at both
  ends; the empty string is \<open>0\<close>; otherwise the whole rest must be a StrNumericLiteral, that
  is a binary, octal or hexadecimal integer literal without sign, or a decimal literal with
  an optional sign: \<^verbatim>\<open>Infinity\<close>, or digits with an optional fraction and an optional exponent.
  Everything else is \<^verbatim>\<open>NaN\<close>. The grammar is parsed into a \<open>literal\<close>, whose mathematical
  value is then rounded to binary64 (StringNumericValue, RoundMVResult): a literal too large
  gives an infinity, one too small gives zero, and a minus sign in front of a literal that
  is or rounds to zero gives negative zero. Of the white-space characters only the ASCII
  ones are recognised: a fragment read from \<^verbatim>\<open>window.location.hash\<close> is percent-encoded and
  holds no other.
\<close>

datatype literal =
    LitEmpty
  | LitNonDecimal nat
  | LitInfinity bool
  | LitDecimal bool nat int

definition is_white_space :: "char \<Rightarrow> bool" where
  "is_white_space c = (c \<in> set [CHR 0x09, CHR 0x0A, CHR 0x0B, CHR 0x0C, CHR 0x0D, CHR 0x20])"

definition trim :: "string \<Rightarrow> string" where
  "trim s = rev (dropWhile is_white_space (rev (dropWhile is_white_space s)))"

definition DecimalDigits :: "string \<Rightarrow> bool" where
  "DecimalDigits ds = (ds \<noteq> [] \<and> list_all is_digit ds)"

definition SignedInteger :: "string \<Rightarrow> int option" where
  "SignedInteger s =
     (case s of
        [] \<Rightarrow> None
      | c # r \<Rightarrow>
          if c = CHR ''+'' then (if DecimalDigits r then Some (int (digits_val r)) else None)
          else if c = CHR ''-'' then (if DecimalDigits r then Some (- int (digits_val r)) else None)
          else if DecimalDigits s then Some (int (digits_val s)) else None)"

definition ExponentPart_opt :: "string \<Rightarrow> int option" where
  "ExponentPart_opt s =
     (case s of
        [] \<Rightarrow> Some 0
      | c # r \<Rightarrow> if c = CHR ''e'' \<or> c = CHR ''E'' then SignedInteger r else None)"

text \<open>\<open>LitDecimal neg m e\<close> is the literal of sign \<open>neg\<close> whose digits, the decimal point
  left out, read \<open>m\<close>, and whose value is \<open>m * 10^e\<close>: the exponent part less the number of
  fraction digits.\<close>

definition StrUnsignedDecimalLiteral :: "bool \<Rightarrow> string \<Rightarrow> literal option" where
  "StrUnsignedDecimalLiteral neg s =
     (if s = ''Infinity'' then Some (LitInfinity neg)
      else
        let ip = takeWhile is_digit s;
            r = dropWhile is_digit s;
            fp = (case r of [] \<Rightarrow> [] | c # t \<Rightarrow> if c = CHR ''.'' then takeWhile is_digit t else []);
            r' = (case r of [] \<Rightarrow> [] | c # t \<Rightarrow> if c = CHR ''.'' then dropWhile is_digit t else r)
        in if ip = [] \<and> fp = [] then None
           else (case ExponentPart_opt r' of
                   None \<Rightarrow> None
                 | Some e \<Rightarrow> Some (LitDecimal neg (digits_val (ip @ fp)) (e - int (length fp)))))"

definition hex_table :: "(char \<times> nat) list" where
  "hex_table = digit_table @
     [(CHR ''a'', 10), (CHR ''b'', 11), (CHR ''c'', 12), (CHR ''d'', 13), (CHR ''e'', 14), (CHR ''f'', 15),
      (CHR ''A'', 10), (CHR ''B'', 11), (CHR ''C'', 12), (CHR ''D'', 13), (CHR ''E'', 14), (CHR ''F'', 15)]"

definition digit_in :: "nat \<Rightarrow> char \<Rightarrow> bool" where
  "digit_in base c = (case map_of hex_table c of Some d \<Rightarrow> d < base | None \<Rightarrow> False)"

definition base_val :: "nat \<Rightarrow> string \<Rightarrow> nat" where
  "base_val base ds =
     foldl (\<lambda>a c. base * a + (case map_of hex_table c of Some d \<Rightarrow> d | None \<Rightarrow> 0)) 0 ds"

definition NonDecimalIntegerLiteral :: "string \<Rightarrow> literal option" where
  "NonDecimalIntegerLiteral s =
     (case s of
        c0 # c1 # ds \<Rightarrow>
          if c0 = CHR ''0'' \<and> ds \<noteq> [] then
            if (c1 = CHR ''x'' \<or> c1 = CHR ''X'') \<and> list_all (digit_in 16) ds
              then Some (LitNonDecimal (base_val 16 ds))
            else if (c1 = CHR ''o'' \<or> c1 = CHR ''O'') \<and> list_all (digit_in 8) ds
              then Some (LitNonDecimal (base_val 8 ds))
            else if (c1 = CHR ''b'' \<or> c1 = CHR ''B'') \<and> list_all (digit_in 2) ds
              then Some (LitNonDecimal (base_val 2 ds))
            else None
          else None
      | _ \<Rightarrow> None)"

definition StringNumericLiteral :: "string \<Rightarrow> literal option" where
  "StringNumericLiteral str =
     (let s = trim str in
      if s = [] then Some LitEmpty
      else (case NonDecimalIntegerLiteral s of
              Some l \<Rightarrow> Some l
            | None \<Rightarrow>
                (case s of
                   [] \<Rightarrow> None
                 | c # r \<Rightarrow>
                     if c = CHR ''+'' then StrUnsignedDecimalLiteral False r
                     else if c = CHR ''-'' then StrUnsignedDecimalLiteral True r
                     else StrUnsignedDecimalLiteral False s)))"

fun literal_value :: "literal \<Rightarrow> jsnum" where
  "literal_value LitEmpty = Fin 0"
| "literal_value (LitNonDecimal n) = binary64 (of_nat n)"
| "literal_value (LitInfinity neg) = (if neg then NegInf else PosInf)"
| "literal_value (LitDecimal neg m e) =
     (if neg then negate (binary64 (of_nat m * 10 powi e)) else binary64 (of_nat m * 10 powi e))"

definition Number :: "string \<Rightarrow> jsnum" where
  "Number str = (case StringNumericLiteral str of None \<Rightarrow> NaN | Some l \<Rightarrow> literal_value l)"


section \<open>The state of the map component\<close>

text \<open>
  The React state of \<^verbatim>\<open>Map()\<close> (lines 33 to 42), the map behind \<^verbatim>\<open>mapRef\<close>, and the part of
  the browser the component reads and writes: \<^verbatim>\<open>window.location\<close> and the session history.
  Of the Mapbox map only what the component uses is kept: its GeoJSON sources by name, its
  layers, and the \<^verbatim>\<open>fitBounds\<close> calls it has received.
\<close>

datatype tool = hand | rectangle

datatype style = streets | satellite

record BoundingBox =
  start :: "point option"
  end' :: "point option"

datatype geometry = Polygon "point list list"

datatype geojson = Feature geometry | FeatureCollection "geojson list"

datatype paint_value = Colour string | Amount real

record layer =
  layer_id :: string
  layer_type :: string
  layer_source :: string
  paint :: "(string \<times> paint_value) list"

datatype map_call = FitBounds point point nat nat

record mapbox =
  sources :: "string \<rightharpoonup> geojson"
  layers :: "layer list"
  calls :: "map_call list"

record app_state =
  activeTool :: tool
  boundingBox :: BoundingBox
  isDrawing :: bool
  fitToBoundsNextRender :: bool
  mapStyle :: style
  mapRef :: "mapbox option"
  location_pathname :: string
  location_search :: string
  location_hash :: string
  history :: "string list"

definition FIT_BOUNDS_PADDING :: nat where
  "FIT_BOUNDS_PADDING = 160"

definition FIT_BOUNDS_ANIMATION_DURATION_MS :: nat where
  "FIT_BOUNDS_ANIMATION_DURATION_MS = 150"

definition empty_map :: mapbox where
  "empty_map = \<lparr>sources = Map.empty, layers = [], calls = []\<rparr>"

text \<open>The state at mount, for a page at the given location.\<close>

definition initial_state :: "string \<Rightarrow> string \<Rightarrow> string \<Rightarrow> app_state" where
  "initial_state pathname search hash =
     \<lparr>activeTool = hand,
      boundingBox = \<lparr>start = None, end' = None\<rparr>,
      isDrawing = False,
      fitToBoundsNextRender = False,
      mapStyle = streets,
      mapRef = Some empty_map,
      location_pathname = pathname,
      location_search = search,
      location_hash = hash,
      history = []\<rparr>"


section \<open>Reading the bounding box from the URL fragment\<close>

text \<open>
  \<^verbatim>\<open>handleHashChange\<close>, lines 46 to 60. The destructuring
  \<^verbatim>\<open>const [lon1, lat1, lon2, lat2] = hash.split(',').map(Number)\<close> takes the first four
  elements of the array; an element the array does not have is \<^verbatim>\<open>undefined\<close> (here \<open>None\<close>),
  and elements after the fourth are not looked at. The global \<^verbatim>\<open>isNaN\<close> converts its argument
  with ToNumber first, which sends \<^verbatim>\<open>undefined\<close> to \<^verbatim>\<open>NaN\<close>. Where the test has passed, the four
  values are numbers and are stored as they are.
\<close>

definition element :: "'a list \<Rightarrow> nat \<Rightarrow> 'a option" where
  "element xs i = (if i < length xs then Some (xs ! i) else None)"

definition ToNumber :: "jsnum option \<Rightarrow> jsnum" where
  "ToNumber v = (case v of None \<Rightarrow> NaN | Some x \<Rightarrow> x)"

definition handleHashChange :: "app_state \<Rightarrow> app_state" where
  "handleHashChange s =
     (let hash = drop 1 (location_hash s) in
      if hash \<noteq> [] then
        (let nums = map Number (split_at CHR '','' hash);
             lon1 = element nums 0;
             lat1 = element nums 1;
             lon2 = element nums 2;
             lat2 = element nums 3
         in if \<not> isNaN (ToNumber lon1) \<and> \<not> isNaN (ToNumber lat1) \<and>
               \<not> isNaN (ToNumber lon2) \<and> \<not> isNaN (ToNumber lat2)
            then s\<lparr>boundingBox := \<lparr>start = Some (ToNumber lon1, ToNumber lat1),
                                   end' = Some (ToNumber lon2, ToNumber lat2)\<rparr>,
                   fitToBoundsNextRender := True\<rparr>
            else s)
      else s)"


section \<open>Writing the bounding box to the URL\<close>

text \<open>
  \<^verbatim>\<open>window.history.pushState(state, '', url)\<close> adds a session history entry for the URL and
  makes it the location of the document, without loading anything and without a
  \<^verbatim>\<open>hashchange\<close> event: nothing else of the state changes. The URL parser drops tabs and
  newlines, takes what follows the first \<^verbatim>\<open>#\<close> as the fragment and percent-encodes in it the
  control characters, the space, \<^verbatim>\<open>"\<close>, \<^verbatim>\<open><\<close>, \<^verbatim>\<open>>\<close>, the backquote and every byte outside
  ASCII; \<^verbatim>\<open>location.hash\<close> is then \<^verbatim>\<open>#\<close> and the fragment, or empty for an empty fragment.
\<close>

definition hex_digit :: "nat \<Rightarrow> char" where
  "hex_digit d = ''0123456789ABCDEF'' ! d"

definition in_fragment_percent_encode_set :: "char \<Rightarrow> bool" where
  "in_fragment_percent_encode_set c =
     ((of_char c :: nat) < 32 \<or> (of_char c :: nat) > 126 \<or>
      c \<in> set [CHR '' '', CHR 0x22, CHR ''<'', CHR ''>'', CHR 0x60])"

definition fragment_encode :: "string \<Rightarrow> string" where
  "fragment_encode f =
     concat (map (\<lambda>c. if in_fragment_percent_encode_set c
                       then [CHR ''%'', hex_digit (of_char c div 16), hex_digit (of_char c mod 16)]
                       else [c]) f)"

definition pushState :: "string \<Rightarrow> app_state \<Rightarrow> app_state" where
  "pushState url s =
     (let input = filter (\<lambda>c. c \<notin> set [CHR 0x09, CHR 0x0A, CHR 0x0D]) url;
          fragment = fragment_encode (drop 1 (dropWhile (\<lambda>c. c \<noteq> CHR ''#'') input))
      in s\<lparr>history := history s @ [url],
           location_hash := (if fragment = [] then [] else ''#'' @ fragment)\<rparr>)"

text \<open>\<^verbatim>\<open>updateURL\<close>, lines 125 to 135.\<close>

definition updateURL :: "point option \<Rightarrow> point option \<Rightarrow> app_state \<Rightarrow> app_state" where
  "updateURL st en s =
     (let bboxString = formatBoundingBox st en no_options;
          newUrl = location_pathname s @ location_search s @ ''#'' @ bboxString
      in pushState newUrl s)"


section \<open>Pointer and keyboard handlers\<close>

text \<open>
  Each handler is the closure of the latest render, so the state a handler reads and the
  state its updater functions receive are the same. \<open>lngLat\<close> is the pair
  \<^verbatim>\<open>(e.lngLat.lng, e.lngLat.lat)\<close>. \<^verbatim>\<open>handleMouseDown\<close> is lines 137 to 150, \<^verbatim>\<open>handleMouseMove\<close>
  lines 152 to 164, \<^verbatim>\<open>handleMouseUp\<close> lines 166 to 200.
\<close>

definition handleMouseDown :: "point \<Rightarrow> app_state \<Rightarrow> app_state" where
  "handleMouseDown lngLat s =
     (if activeTool s \<noteq> rectangle then s
      else s\<lparr>boundingBox := \<lparr>start = Some (fst lngLat, snd lngLat), end' = None\<rparr>,
             isDrawing := True\<rparr>)"

definition handleMouseMove :: "point \<Rightarrow> app_state \<Rightarrow> app_state" where
  "handleMouseMove lngLat s =
     (if activeTool s \<noteq> rectangle \<or> \<not> isDrawing s \<or> start (boundingBox s) = None then s
      else s\<lparr>boundingBox := (boundingBox s)\<lparr>end' := Some (fst lngLat, snd lngLat)\<rparr>\<rparr>)"

definition handleMouseUp :: "point \<Rightarrow> app_state \<Rightarrow> app_state" where
  "handleMouseUp lngLat s =
     (if activeTool s \<noteq> rectangle \<or> \<not> isDrawing s then s
      else (case start (boundingBox s) of
              None \<Rightarrow> s
            | Some st \<Rightarrow>
                (let end = (fst lngLat, snd lngLat);
                     isBoundsEmpty = (strict_eq (fst st) (fst end) \<and> strict_eq (snd st) (snd end));
                     s1 = (if isBoundsEmpty
                           then s\<lparr>boundingBox := \<lparr>start = None, end' = None\<rparr>\<rparr>
                           else s\<lparr>boundingBox := \<lparr>start = start (boundingBox s), end' = Some end\<rparr>\<rparr>);
                     s2 = s1\<lparr>isDrawing := False, activeTool := hand\<rparr>
                 in if \<not> isBoundsEmpty
                    then (updateURL (Some st) (Some end) s2)\<lparr>fitToBoundsNextRender := True\<rparr>
                    else updateURL None None s2)))"

record key_event =
  key :: string
  metaKey :: bool
  altKey :: bool
  ctrlKey :: bool
  shiftKey :: bool

text \<open>\<^verbatim>\<open>handleKeyDown\<close>, lines 288 to 300.\<close>

definition handleKeyDown :: "key_event \<Rightarrow> app_state \<Rightarrow> app_state" where
  "handleKeyDown e s =
     (let noModifiers = (\<not> metaKey e \<and> \<not> altKey e \<and> \<not> ctrlKey e \<and> \<not> shiftKey e) in
      if key e = ''r'' \<and> noModifiers then s\<lparr>activeTool := rectangle\<rparr>
      else if key e = ''h'' \<and> noModifiers then s\<lparr>activeTool := hand\<rparr>
      else if key e = ''s'' \<and> noModifiers
        then s\<lparr>mapStyle := (if mapStyle s = streets then satellite else streets)\<rparr>
      else s)"


section \<open>The overlay and the viewport\<close>

text \<open>\<^verbatim>\<open>renderBoundingBox\<close>, lines 203 to 276: the overlay is the GeoJSON source
  \<^verbatim>\<open>bbox-source\<close> with a fill layer and a line layer on it.\<close>

definition bbox_fill :: layer where
  "bbox_fill = \<lparr>layer_id = ''bbox-fill'', layer_type = ''fill'', layer_source = ''bbox-source'',
     paint = [(''fill-color'', Colour ''#0080ff''), (''fill-opacity'', Amount 0.2)]\<rparr>"

definition bbox_outline :: layer where
  "bbox_outline = \<lparr>layer_id = ''bbox-outline'', layer_type = ''line'', layer_source = ''bbox-source'',
     paint = [(''line-color'', Colour ''#0080ff''), (''line-width'', Amount 2)]\<rparr>"

definition renderBoundingBox :: "BoundingBox \<Rightarrow> app_state \<Rightarrow> app_state" where
  "renderBoundingBox box s =
     (case (start box, end' box) of
        (Some (lon1, lat1), Some (lon2, lat2)) \<Rightarrow>
          (let coordinates = [(lon1, lat1), (lon2, lat1), (lon2, lat2), (lon1, lat2), (lon1, lat1)];
               geojson = Feature (Polygon [coordinates])
           in case mapRef s of
                None \<Rightarrow> s
              | Some m \<Rightarrow>
                  if sources m ''bbox-source'' \<noteq> None
                  then s\<lparr>mapRef := Some (m\<lparr>sources := (sources m)(''bbox-source'' \<mapsto> geojson)\<rparr>)\<rparr>
                  else s\<lparr>mapRef := Some (m\<lparr>sources := (sources m)(''bbox-source'' \<mapsto> geojson),
                                            layers := layers m @ [bbox_fill, bbox_outline]\<rparr>)\<rparr>)
      | _ \<Rightarrow>
          (case mapRef s of
             None \<Rightarrow> s
           | Some m \<Rightarrow>
               if sources m ''bbox-source'' \<noteq> None
               then s\<lparr>mapRef := Some (m\<lparr>sources := (sources m)(''bbox-source'' \<mapsto> FeatureCollection [])\<rparr>)\<rparr>
               else s))"

text \<open>\<^verbatim>\<open>fitToBoundsIfRequested\<close>, lines 317 to 342, the map's \<^verbatim>\<open>onRender\<close> handler.\<close>

definition fitToBoundsIfRequested :: "app_state \<Rightarrow> app_state" where
  "fitToBoundsIfRequested s =
     (case (mapRef s, start (boundingBox s), end' (boundingBox s)) of
        (Some m, Some st, Some en) \<Rightarrow>
          if fitToBoundsNextRender s
          then s\<lparr>mapRef := Some (m\<lparr>calls := calls m @
                     [FitBounds (Math_min (fst st) (fst en), Math_min (snd st) (snd en))
                                (Math_max (fst st) (fst en), Math_max (snd st) (snd en))
                                FIT_BOUNDS_PADDING FIT_BOUNDS_ANIMATION_DURATION_MS]\<rparr>),
                 fitToBoundsNextRender := False\<rparr>
          else s
      | _ \<Rightarrow> s)"


section \<open>Events\<close>

text \<open>
  The component is driven by events: a \<^verbatim>\<open>hashchange\<close> navigation to a new fragment (the
  same handler runs once at mount, on the location of the page), pointer and touch events
  of the map with their geographic coordinate, key presses, clicks on the tool buttons, and
  the map's render tick. After an event that has changed \<^verbatim>\<open>boundingBox\<close> the effect of lines
  312 to 315 renders the overlay.
\<close>

datatype event =
    HashChange string
  | MouseDown point
  | MouseMove point
  | MouseUp point
  | KeyDown key_event
  | SelectTool tool
  | SelectStyle style
  | Render

fun handle :: "event \<Rightarrow> app_state \<Rightarrow> app_state" where
  "handle (HashChange h) s = handleHashChange (s\<lparr>location_hash := h\<rparr>)"
| "handle (MouseDown p) s = handleMouseDown p s"
| "handle (MouseMove p) s = handleMouseMove p s"
| "handle (MouseUp p) s = handleMouseUp p s"
| "handle (KeyDown e) s = handleKeyDown e s"
| "handle (SelectTool t) s = s\<lparr>activeTool := t\<rparr>"
| "handle (SelectStyle st) s = s\<lparr>mapStyle := st\<rparr>"
| "handle Render s = fitToBoundsIfRequested s"

definition step :: "event \<Rightarrow> app_state \<Rightarrow> app_state" where
  "step e s =
     (let s' = handle e s in
      if boundingBox s' \<noteq> boundingBox s then renderBoundingBox (boundingBox s') s' else s')"

fun run :: "event list \<Rightarrow> app_state \<Rightarrow> app_state" where
  "run [] s = s"
| "run (e # es) s = run es (step e s)"

definition plain_key :: "string \<Rightarrow> key_event" where
  "plain_key k = \<lparr>key = k, metaKey = False, altKey = False, ctrlKey = False, shiftKey = False\<rparr>"


section \<open>Rounding and the normalized form\<close>

text \<open>
  The words of the specification, for the round trip through the URL fragment. \<open>round6\<close> is
  a number rounded to six decimals, as a number can hold it: the decimal that stands for the
  number is rounded to a whole number of millionths (\<open>half_expand6\<close>, a tie going away from
  zero), and the result is the binary64 value nearest to that; a negative number that
  rounds to zero gives negative zero. \<open>southwest_northeast\<close> is the normalized form of a box:
  its southwest corner (minimum longitude, minimum latitude) and its northeast corner
  (maximum longitude, maximum latitude).
\<close>

definition half_expand6 :: "real \<Rightarrow> real" where
  "half_expand6 y = real (nat \<lfloor>y * 10 ^ 6 + 1 / 2\<rfloor>) / 10 ^ 6"

definition round6 :: "jsnum \<Rightarrow> jsnum" where
  "round6 x =
     (case x of
        Fin q \<Rightarrow>
          if q < 0 then negate (binary64 (half_expand6 (shortest_decimal (- q))))
          else binary64 (half_expand6 (shortest_decimal q))
      | _ \<Rightarrow> x)"

definition southwest_northeast :: "BoundingBox \<Rightarrow> (point \<times> point) option" where
  "southwest_northeast box =
     (case (start box, end' box) of
        (Some (lon1, lat1), Some (lon2, lat2)) \<Rightarrow>
          Some ((Math_min lon1 lon2, Math_min lat1 lat2), (Math_max lon1 lon2, Math_max lat1 lat2))
      | _ \<Rightarrow> None)"

text \<open>The order of the numbers in which negative zero stands just below positive zero: the
  order \<^verbatim>\<open>Math.min\<close> and \<^verbatim>\<open>Math.max\<close> choose by.\<close>

definition below :: "jsnum \<Rightarrow> jsnum \<Rightarrow> bool" where
  "below x y =
     (rank x < rank y \<or>
      (rank x = rank y \<and> (mv x < mv y \<or> (mv x = mv y \<and> (x = NegZero \<or> y \<noteq> NegZero)))))"

definition round6_corners :: "point \<times> point \<Rightarrow> point \<times> point" where
  "round6_corners c =
     ((round6 (fst (fst c)), round6 (snd (fst c))), (round6 (fst (snd c)), round6 (snd (snd c))))"


section \<open>Coordinates\<close>

text \<open>
  A corner point is a pair of numbers, neither of them \<^verbatim>\<open>NaN\<close>. The points the map hands to
  the pointer handlers are such pairs (a Mapbox \<^verbatim>\<open>LngLat\<close> cannot be built from \<^verbatim>\<open>NaN\<close>), and
  the fragment handler stores no \<^verbatim>\<open>NaN\<close>; so every box the component holds has corner points
  in this sense, which \<open>run_box_coordinates\<close> below proves.
\<close>

definition coordinate :: "point \<Rightarrow> bool" where
  "coordinate p = (\<not> isNaN (fst p) \<and> \<not> isNaN (snd p))"

fun valid_event :: "event \<Rightarrow> bool" where
  "valid_event (MouseDown p) = coordinate p"
| "valid_event (MouseMove p) = coordinate p"
| "valid_event (MouseUp p) = coordinate p"
| "valid_event _ = True"

definition box_coordinates :: "BoundingBox \<Rightarrow> bool" where
  "box_coordinates box =
     ((case start box of None \<Rightarrow> True | Some p \<Rightarrow> coordinate p) \<and>
      (case end' box of None \<Rightarrow> True | Some p \<Rightarrow> coordinate p))"


section \<open>Concrete states\<close>

text \<open>The state in the middle of a drag that started at \<open>(151, -33)\<close>, on the page \<^verbatim>\<open>/\<close>.\<close>

definition drawing_state :: app_state where
  "drawing_state = (initial_state ''/'' '''' '''')
     \<lparr>activeTool := rectangle, isDrawing := True,
      boundingBox := \<lparr>start = Some (Fin 151, Fin (- 33)), end' = None\<rparr>\<rparr>"


section \<open>Evaluating the model\<close>

declare string_of_nat.simps [simp del]

lemma replicate_numeral_unfold: "replicate (numeral k) x = x # replicate (pred_numeral k) x"
  by (simp add: numeral_eq_Suc)

lemmas number_eval = fixed_digits_def strip_trailing_zeros_def string_of_nat.simps digit_char_def Let_def
  ToRawFixed_def StringNumericLiteral_def trim_def is_white_space_def NonDecimalIntegerLiteral_def
  StrUnsignedDecimalLiteral_def is_digit_def digit_table_def digit_val_def digits_val_def
  ExponentPart_opt_def SignedInteger_def DecimalDigits_def hex_table_def digit_in_def base_val_def
  Number_def infinity_sign_def replicate_numeral_unfold
  binary64_def round_magnitude_def binade_def round_half_even_def exponent_of.simps
  lower_decimal_def upper_decimal_def candidate_def shortest_search.simps shortest_decimal_def

lemma drawing_state_reachable:
  "run [KeyDown (plain_key ''r''), MouseDown (Fin 151, Fin (- 33))] (initial_state ''/'' '''' '''') =
     drawing_state"
  by (simp add: drawing_state_def step_def handleKeyDown_def plain_key_def handleMouseDown_def
      initial_state_def renderBoundingBox_def Let_def empty_map_def)

lemma drawing_state_guard:
  "activeTool drawing_state = rectangle" "isDrawing drawing_state"
  "start (boundingBox drawing_state) = Some (Fin 151, Fin (- 33))"
  by (simp_all add: drawing_state_def initial_state_def)

lemma drawing_state_fields:
  "history drawing_state = []" "location_pathname drawing_state = ''/''"
  "location_search drawing_state = []" "\<not> fitToBoundsNextRender drawing_state"
  by (simp_all add: drawing_state_def initial_state_def)


section \<open>Decimal digits\<close>

text \<open>The digits written for a natural number are digits, and read back as that number;
  zeros in front do not change the value, zeros behind multiply it by ten each.\<close>

lemma digit_cases: "d < 10 \<Longrightarrow> d = 0 \<or> d = 1 \<or> d = 2 \<or> d = 3 \<or> d = 4 \<or> d = 5 \<or> d = 6 \<or> d = 7 \<or> d = 8 \<or> d = (9::nat)"
  by arith

lemma is_digit_digit_char: "d < 10 \<Longrightarrow> is_digit (digit_char d)"
  using digit_cases [of d] by (auto simp add: is_digit_def digit_char_def digit_table_def)

lemma digit_val_digit_char: "d < 10 \<Longrightarrow> digit_val (digit_char d) = d"
  using digit_cases [of d] by (auto simp add: digit_val_def digit_char_def digit_table_def)

lemma is_digit_iff: "is_digit c \<longleftrightarrow> c \<in> set ''0123456789''"
  by (auto simp add: is_digit_def digit_table_def)

lemma string_of_nat_digits: "list_all is_digit (string_of_nat n)"
proof (induction n rule: string_of_nat.induct)
  case (1 n)
  show ?case
  proof (cases "n < 10")
    case True
    then show ?thesis
      by (subst string_of_nat.simps) (simp add: is_digit_digit_char)
  next
    case False
    with 1 show ?thesis
      by (subst string_of_nat.simps) (simp add: is_digit_digit_char)
  qed
qed

lemma digits_val_snoc: "digits_val (xs @ [c]) = 10 * digits_val xs + digit_val c"
  by (simp add: digits_val_def)

lemma digits_val_append: "digits_val (xs @ ys) = digits_val xs * 10 ^ length ys + digits_val ys"
proof (induction ys rule: rev_induct)
  case Nil
  show ?case by (simp add: digits_val_def)
next
  case (snoc y ys)
  have "digits_val (xs @ ys @ [y]) = 10 * digits_val (xs @ ys) + digit_val y"
    using digits_val_snoc [of "xs @ ys" y] by simp
  with snoc show ?case
    by (simp add: digits_val_snoc algebra_simps)
qed

lemma digits_val_string_of_nat: "digits_val (string_of_nat n) = n"
proof (induction n rule: string_of_nat.induct)
  case (1 n)
  show ?case
  proof (cases "n < 10")
    case True
    then show ?thesis
      by (subst string_of_nat.simps) (simp add: digits_val_def digit_val_digit_char)
  next
    case False
    with 1 show ?thesis
      by (subst string_of_nat.simps) (simp add: digits_val_snoc digit_val_digit_char)
  qed
qed

lemma digit_val_zero: "digit_val (CHR ''0'') = 0"
  by (simp add: digit_val_def digit_table_def)

lemma digits_val_zeros: "digits_val (replicate k (CHR ''0'')) = 0"
proof (induction k)
  case 0
  show ?case by (simp add: digits_val_def)
next
  case (Suc k)
  have "digits_val (replicate (Suc k) (CHR ''0'')) = digits_val (replicate k (CHR ''0'') @ [CHR ''0''])"
    by (simp add: replicate_append_same)
  also have "\<dots> = 10 * digits_val (replicate k (CHR ''0'')) + digit_val (CHR ''0'')"
    by (rule digits_val_snoc)
  finally show ?case
    using Suc by (simp add: digit_val_zero)
qed

lemma digits_val_trailing_zeros: "digits_val (xs @ replicate k (CHR ''0'')) = digits_val xs * 10 ^ k"
  by (simp add: digits_val_append digits_val_zeros)

lemma digits_val_leading_zeros: "digits_val (replicate k (CHR ''0'') @ xs) = digits_val xs"
  by (simp add: digits_val_append digits_val_zeros)

lemma takeWhile_eq_replicate:
  "takeWhile (\<lambda>c. c = z) xs = replicate (length (takeWhile (\<lambda>c. c = z) xs)) z"
  by (induction xs) auto

lemma strip_trailing_zeros_decomp:
  "\<exists>k. b = strip_trailing_zeros b @ replicate k (CHR ''0'') \<and> length (strip_trailing_zeros b) + k = length b"
proof -
  let ?z = "\<lambda>c. c = CHR ''0''"
  let ?k = "length (takeWhile ?z (rev b))"
  have "rev b = takeWhile ?z (rev b) @ dropWhile ?z (rev b)"
    by simp
  then have "rev (rev b) = rev (takeWhile ?z (rev b) @ dropWhile ?z (rev b))"
    by simp
  then have "b = rev (dropWhile ?z (rev b)) @ rev (takeWhile ?z (rev b))"
    by (simp only: rev_rev_ident rev_append)
  moreover have "rev (takeWhile ?z (rev b)) = replicate ?k (CHR ''0'')"
    using takeWhile_eq_replicate [of "CHR ''0''" "rev b"] by (metis rev_replicate)
  ultimately have eq: "b = strip_trailing_zeros b @ replicate ?k (CHR ''0'')"
    by (simp add: strip_trailing_zeros_def)
  have "length b = length (strip_trailing_zeros b @ replicate ?k (CHR ''0''))"
    using eq by simp
  then have "length (strip_trailing_zeros b) + ?k = length b"
    by (simp only: length_append length_replicate)
  with eq show ?thesis by blast
qed


section \<open>Rounding to binary64\<close>

text \<open>
  \<open>exponent_of\<close> brackets its argument between two powers of the base, and rounding to
  binary64 keeps the order of the magnitudes.
\<close>

lemma exponent_of_bounds:
  assumes "1 < b" and "0 < a"
  shows "b powi exponent_of b a \<le> a \<and> a < b powi (exponent_of b a + 1)"
  using assms
proof (induction b a rule: exponent_of.induct)
  case (1 b a)
  have b0: "b \<noteq> 0" "0 < b"
    using 1(3) by simp_all
  consider "a < 1" | "b \<le> a" | "1 \<le> a" "a < b"
    by linarith
  then show ?case
  proof cases
    case 1
    have e: "exponent_of b a = exponent_of b (a * b) - 1"
      using 1 \<open>1 < b\<close> \<open>0 < a\<close> by (subst exponent_of.simps) simp
    have "0 < a * b"
      using \<open>0 < a\<close> b0 by simp
    with "1.IH"(1) 1 \<open>1 < b\<close> \<open>0 < a\<close>
    have ih: "b powi exponent_of b (a * b) \<le> a * b" "a * b < b powi (exponent_of b (a * b) + 1)"
      by simp_all
    have "b powi (exponent_of b (a * b) - 1) = b powi exponent_of b (a * b) / b"
      using b0 by (simp add: power_int_diff)
    also have "\<dots> \<le> a"
      using ih(1) b0 by (simp add: field_simps)
    finally have lo: "b powi (exponent_of b (a * b) - 1) \<le> a" .
    have "a * b < b powi exponent_of b (a * b) * b"
      using ih(2) b0 by (simp add: power_int_add_1)
    then have hi: "a < b powi exponent_of b (a * b)"
      using b0 by simp
    from lo hi show ?thesis
      unfolding e by simp
  next
    case 2
    then have na: "\<not> a < 1"
      using \<open>1 < b\<close> by simp
    have e: "exponent_of b a = exponent_of b (a / b) + 1"
      using 2 na \<open>1 < b\<close> \<open>0 < a\<close> by (subst exponent_of.simps) simp
    have "0 < a / b"
      using \<open>0 < a\<close> b0 by simp
    with "1.IH"(2) 2 na \<open>1 < b\<close> \<open>0 < a\<close>
    have ih: "b powi exponent_of b (a / b) \<le> a / b" "a / b < b powi (exponent_of b (a / b) + 1)"
      by simp_all
    have "b powi (exponent_of b (a / b) + 1) = b powi exponent_of b (a / b) * b"
      using b0 by (simp add: power_int_add_1)
    also have "\<dots> \<le> a"
      using ih(1) b0 by (simp add: field_simps)
    finally have lo: "b powi (exponent_of b (a / b) + 1) \<le> a" .
    have "b powi (exponent_of b (a / b) + 1 + 1) = b powi (exponent_of b (a / b) + 1) * b"
      by (rule power_int_add_1) (use b0 in simp)
    moreover have "a < b powi (exponent_of b (a / b) + 1) * b"
      using ih(2) b0 by (simp add: field_simps)
    ultimately have hi: "a < b powi (exponent_of b (a / b) + 1 + 1)"
      by simp
    from lo hi show ?thesis
      unfolding e by simp
  next
    case 3
    have e: "exponent_of b a = 0"
      using 3 \<open>1 < b\<close> \<open>0 < a\<close> by (subst exponent_of.simps) simp
    from 3 show ?thesis
      unfolding e by simp
  qed
qed

lemma exponent_of_mono:
  assumes "1 < b" and "0 < a" and "a \<le> a'"
  shows "exponent_of b a \<le> exponent_of b a'"
proof (rule ccontr)
  assume "\<not> exponent_of b a \<le> exponent_of b a'"
  then have "exponent_of b a' + 1 \<le> exponent_of b a"
    by simp
  then have "b powi (exponent_of b a' + 1) \<le> b powi exponent_of b a"
    using assms(1) by (intro power_int_increasing) simp_all
  moreover have "b powi exponent_of b a \<le> a" "a' < b powi (exponent_of b a' + 1)"
    using exponent_of_bounds [OF assms(1,2)] exponent_of_bounds [OF assms(1), of a'] assms(2,3)
    by simp_all
  ultimately show False
    using assms(3) by linarith
qed

lemma round_half_even_of_int: "round_half_even (of_int n) = n"
  by (simp add: round_half_even_def)

lemma round_half_even_range: "\<lfloor>y\<rfloor> \<le> round_half_even y \<and> round_half_even y \<le> \<lfloor>y\<rfloor> + 1"
  by (simp add: round_half_even_def)

lemma round_half_even_mono:
  assumes "y \<le> y'"
  shows "round_half_even y \<le> round_half_even y'"
proof (cases "\<lfloor>y\<rfloor> = \<lfloor>y'\<rfloor>")
  case True
  with assms show ?thesis
    by (auto simp add: round_half_even_def)
next
  case False
  with assms have "\<lfloor>y\<rfloor> + 1 \<le> \<lfloor>y'\<rfloor>"
    using floor_mono [OF assms] by simp
  with round_half_even_range [of y] round_half_even_range [of y'] show ?thesis
    by linarith
qed

lemma round_half_even_ge: "of_int n \<le> y \<Longrightarrow> n \<le> round_half_even y"
  using round_half_even_mono [of "of_int n" y] by (simp add: round_half_even_of_int)

lemma round_half_even_le: "y \<le> of_int n \<Longrightarrow> round_half_even y \<le> n"
  using round_half_even_mono [of y "of_int n"] by (simp add: round_half_even_of_int)

lemma round_magnitude_zero: "round_magnitude 0 = 0"
  by (simp add: round_magnitude_def round_half_even_def)

lemma round_magnitude_nonneg:
  assumes "0 \<le> a"
  shows "0 \<le> round_magnitude a"
proof -
  have "0 \<le> a * 2 powi (52 - binade a)"
    using assms by simp
  then have "0 \<le> round_half_even (a * 2 powi (52 - binade a))"
    using round_half_even_ge [of 0] by simp
  then show ?thesis
    by (simp add: round_magnitude_def)
qed

lemma round_magnitude_mono:
  assumes "0 \<le> a" and "a \<le> a'"
  shows "round_magnitude a \<le> round_magnitude a'"
proof (cases "a = 0")
  case True
  then show ?thesis
    using assms round_magnitude_nonneg [of a'] by (simp add: round_magnitude_zero)
next
  case False
  with assms have a: "0 < a" and a': "0 < a'"
    by simp_all
  define e where "e = binade a"
  define e' where "e' = binade a'"
  have rm: "round_magnitude a = of_int (round_half_even (a * 2 powi (52 - e))) * 2 powi (e - 52)"
    "round_magnitude a' = of_int (round_half_even (a' * 2 powi (52 - e'))) * 2 powi (e' - 52)"
    by (simp_all add: round_magnitude_def e_def e'_def)
  have ee: "e \<le> e'"
    using exponent_of_mono [of 2 a a'] a assms(2) by (simp add: e_def e'_def binade_def)
  show ?thesis
  proof (cases "e = e'")
    case True
    have "a * 2 powi (52 - e) \<le> a' * 2 powi (52 - e)"
      using assms(2) by (intro mult_right_mono) simp_all
    then have "round_half_even (a * 2 powi (52 - e)) \<le> round_half_even (a' * 2 powi (52 - e))"
      by (rule round_half_even_mono)
    then have "(of_int (round_half_even (a * 2 powi (52 - e))) :: real) * 2 powi (e - 52) \<le>
        of_int (round_half_even (a' * 2 powi (52 - e))) * 2 powi (e - 52)"
      by (intro mult_right_mono) simp_all
    then show ?thesis
      unfolding rm True [symmetric] .
  next
    case False
    with ee have lt: "e < e'"
      by simp
    then have e'E: "e' = exponent_of 2 a'" and eE: "exponent_of 2 a \<le> e"
      by (auto simp add: e_def e'_def binade_def)
    have "a < 2 powi (exponent_of 2 a + 1)"
      using exponent_of_bounds [of 2 a] a by simp
    also have "\<dots> \<le> 2 powi (e + 1)"
      using eE by (intro power_int_increasing) simp_all
    finally have "a * 2 powi (52 - e) \<le> 2 powi (e + 1) * 2 powi (52 - e)"
      by (intro mult_right_mono) simp_all
    also have "\<dots> = 2 powi 53"
      using power_int_add [of "2::real" "e + 1" "52 - e"] by simp
    finally have "a * 2 powi (52 - e) \<le> of_int (2 ^ 53)"
      by simp
    then have "round_half_even (a * 2 powi (52 - e)) \<le> 2 ^ 53"
      by (rule round_half_even_le)
    then have "(of_int (round_half_even (a * 2 powi (52 - e))) :: real) \<le> of_int (2 ^ 53)"
      by (simp only: of_int_le_iff)
    then have "(of_int (round_half_even (a * 2 powi (52 - e))) :: real) * 2 powi (e - 52) \<le>
        of_int (2 ^ 53) * 2 powi (e - 52)"
      by (intro mult_right_mono) simp_all
    also have "\<dots> = 2 powi (e + 1)"
      using power_int_add [of "2::real" 53 "e - 52"] by (simp add: add.commute)
    also have "\<dots> \<le> 2 powi e'"
      using lt by (intro power_int_increasing) simp_all
    finally have lo: "round_magnitude a \<le> 2 powi e'"
      unfolding rm .
    have "2 powi e' \<le> a'"
      using exponent_of_bounds [of 2 a'] a' by (simp add: e'E)
    then have "2 powi e' * 2 powi (52 - e') \<le> a' * 2 powi (52 - e')"
      by (intro mult_right_mono) simp_all
    moreover have "(2::real) powi e' * 2 powi (52 - e') = 2 powi 52"
      using power_int_add [of "2::real" e' "52 - e'"] by simp
    ultimately have "of_int (2 ^ 52) \<le> a' * 2 powi (52 - e')"
      by simp
    then have "2 ^ 52 \<le> round_half_even (a' * 2 powi (52 - e'))"
      by (rule round_half_even_ge)
    then have "(of_int (2 ^ 52) :: real) \<le> of_int (round_half_even (a' * 2 powi (52 - e')))"
      by (simp only: of_int_le_iff)
    then have h1: "(of_int (2 ^ 52) :: real) * 2 powi (e' - 52) \<le>
        of_int (round_half_even (a' * 2 powi (52 - e'))) * 2 powi (e' - 52)"
      by (intro mult_right_mono) simp_all
    have h2: "(of_int (2 ^ 52) :: real) * 2 powi (e' - 52) = 2 powi e'"
      using power_int_add [of "2::real" 52 "e' - 52"] by simp
    have hi: "2 powi e' \<le> round_magnitude a'"
      unfolding rm using h1 unfolding h2 .
    from lo hi show ?thesis
      by simp
  qed
qed

lemma binary64_Fin: "binary64 a = Fin r \<longleftrightarrow> round_magnitude a = r \<and> r < 2 ^ 1024"
  by (auto simp add: binary64_def)

lemma binary64_PosInf: "binary64 a = PosInf \<longleftrightarrow> 2 ^ 1024 \<le> round_magnitude a"
  by (simp add: binary64_def)

lemma binary64_zero: "binary64 0 = Fin 0"
  by (simp add: binary64_def round_magnitude_zero)

lemma binary64_not_NaN: "\<not> isNaN (binary64 a)"
  by (simp add: binary64_def isNaN_def)

text \<open>Overflow and underflow: a magnitude of \<open>2^1024\<close> or more rounds to infinity, and a
  magnitude under \<open>2^(-1075)\<close>, half the least subnormal value, rounds to zero.\<close>

lemma binary64_overflow:
  assumes "2 ^ 1024 \<le> a"
  shows "binary64 a = PosInf"
proof -
  have a: "0 < a"
    using assms by (rule less_le_trans [rotated]) simp
  define E where "E = exponent_of 2 a"
  have b: "2 powi E \<le> a" "a < 2 powi (E + 1)"
    using exponent_of_bounds [of 2 a] a by (simp_all add: E_def)
  have E: "1024 \<le> E"
  proof (rule ccontr)
    assume "\<not> 1024 \<le> E"
    then have "E + 1 \<le> 1024"
      by simp
    then have "(2::real) powi (E + 1) \<le> 2 powi 1024"
      by (intro power_int_increasing) simp_all
    with b(2) assms show False
      by simp
  qed
  then have e: "binade a = E"
    by (simp add: binade_def E_def)
  have "2 powi E * 2 powi (52 - E) \<le> a * 2 powi (52 - E)"
    using b(1) by (intro mult_right_mono) simp_all
  moreover have "(2::real) powi E * 2 powi (52 - E) = 2 powi 52"
    using power_int_add [of "2::real" E "52 - E"] by simp
  ultimately have "of_int (2 ^ 52) \<le> a * 2 powi (52 - E)"
    by simp
  then have "2 ^ 52 \<le> round_half_even (a * 2 powi (52 - E))"
    by (rule round_half_even_ge)
  then have "(of_int (2 ^ 52) :: real) \<le> of_int (round_half_even (a * 2 powi (52 - E)))"
    by (simp only: of_int_le_iff)
  then have h1: "(of_int (2 ^ 52) :: real) * 2 powi (E - 52) \<le>
      of_int (round_half_even (a * 2 powi (52 - E))) * 2 powi (E - 52)"
    by (intro mult_right_mono) simp_all
  have h2: "(of_int (2 ^ 52) :: real) * 2 powi (E - 52) = 2 powi E"
    using power_int_add [of "2::real" 52 "E - 52"] by simp
  have "2 powi E \<le> round_magnitude a"
    unfolding round_magnitude_def e using h1 unfolding h2 .
  moreover have "(2::real) powi 1024 \<le> 2 powi E"
    using E by (intro power_int_increasing) simp_all
  ultimately have "2 ^ 1024 \<le> round_magnitude a"
    by simp
  then show ?thesis
    by (simp add: binary64_PosInf)
qed

lemma binary64_underflow:
  assumes "0 \<le> a" and "a < 2 powi (- 1075)"
  shows "binary64 a = Fin 0"
proof (cases "a = 0")
  case True
  then show ?thesis
    by (simp add: binary64_zero)
next
  case False
  with assms have a: "0 < a"
    by simp
  define E where "E = exponent_of 2 a"
  have b: "2 powi E \<le> a"
    using exponent_of_bounds [of 2 a] a by (simp add: E_def)
  have "E \<le> - 1022"
  proof (rule ccontr)
    assume "\<not> E \<le> - 1022"
    then have "(2::real) powi (- 1075) \<le> 2 powi E"
      by (intro power_int_increasing) simp_all
    with b assms(2) show False
      by simp
  qed
  then have e: "binade a = - 1022"
    by (simp add: binade_def E_def)
  have "a * 2 powi 1074 < 2 powi (- 1075) * 2 powi 1074"
    using assms(2) by (intro mult_strict_right_mono) simp_all
  moreover have "(2::real) powi (- 1075) * 2 powi 1074 = 1 / 2"
    using power_int_add [of "2::real" "- 1075" 1074] by simp
  ultimately have lt: "a * 2 powi 1074 < 1 / 2"
    by simp
  have ge: "0 \<le> a * 2 powi 1074"
    using a by simp
  have "\<lfloor>a * 2 powi 1074\<rfloor> = 0"
    using lt ge by (simp add: floor_eq_iff)
  then have "round_half_even (a * 2 powi 1074) = 0"
    using lt by (simp add: round_half_even_def)
  then have "round_magnitude a = 0"
    by (simp add: round_magnitude_def e)
  then show ?thesis
    by (simp add: binary64_def)
qed

text \<open>The result of rounding a magnitude is infinity or a finite number that is not
  negative.\<close>

lemma binary64_shape:
  assumes "0 \<le> a"
  shows "binary64 a = PosInf \<or> (\<exists>r\<ge>0. binary64 a = Fin r)"
  using round_magnitude_nonneg [OF assms] by (simp add: binary64_def)

text \<open>
  The shortest decimal of a magnitude converts back to the same binary64 value, and a
  larger magnitude has a larger shortest decimal, or the same.
\<close>

lemma candidate_binary64: "candidate k d = Some c \<Longrightarrow> binary64 c = Fin d"
  by (auto simp add: candidate_def split: if_splits)

lemma shortest_search_binary64: "shortest_search k d = Some c \<Longrightarrow> binary64 c = Fin d"
proof (induction k d rule: shortest_search.induct)
  case (1 k d)
  show ?case
  proof (cases "candidate k d")
    case None
    with 1 show ?thesis
      by (subst (asm) (2) shortest_search.simps) (simp split: if_splits)
  next
    case (Some c')
    with "1.prems" have "c' = c"
      by (subst (asm) shortest_search.simps) (simp split: if_splits)
    with Some show ?thesis
      by (simp add: candidate_binary64)
  qed
qed

lemma lower_decimal_nonneg: "0 \<le> d \<Longrightarrow> 0 \<le> lower_decimal k d"
  by (simp add: lower_decimal_def)

lemma upper_decimal_nonneg: "0 \<le> d \<Longrightarrow> 0 \<le> upper_decimal k d"
  using lower_decimal_nonneg [of d k] by (simp add: upper_decimal_def)

lemma candidate_nonneg: "0 \<le> d \<Longrightarrow> candidate k d = Some c \<Longrightarrow> 0 \<le> c"
  using lower_decimal_nonneg [of d k] upper_decimal_nonneg [of d k]
  by (auto simp add: candidate_def split: if_splits)

lemma shortest_search_nonneg: "0 \<le> d \<Longrightarrow> shortest_search k d = Some c \<Longrightarrow> 0 \<le> c"
proof (induction k d rule: shortest_search.induct)
  case (1 k d)
  show ?case
  proof (cases "candidate k d")
    case None
    with 1 show ?thesis
      by (subst (asm) (2) shortest_search.simps) (simp split: if_splits)
  next
    case (Some c')
    with "1.prems" have "c' = c"
      by (subst (asm) shortest_search.simps) (simp split: if_splits)
    with Some "1.prems"(1) show ?thesis
      by (simp add: candidate_nonneg)
  qed
qed

lemma binary64_shortest_decimal: "binary64 (shortest_decimal q) = binary64 q"
proof (cases "binary64 q")
  case (Fin d)
  show ?thesis
  proof (cases "shortest_search 1 d")
    case None
    with Fin show ?thesis
      by (simp add: shortest_decimal_def)
  next
    case (Some c)
    with Fin show ?thesis
      by (simp add: shortest_decimal_def shortest_search_binary64)
  qed
qed (simp_all add: shortest_decimal_def)

lemma shortest_decimal_nonneg:
  assumes "0 \<le> q"
  shows "0 \<le> shortest_decimal q"
proof (cases "binary64 q")
  case (Fin d)
  then have d: "0 \<le> d"
    using round_magnitude_nonneg [OF assms] by (auto simp add: binary64_Fin)
  show ?thesis
  proof (cases "shortest_search 1 d")
    case None
    with Fin assms show ?thesis
      by (simp add: shortest_decimal_def)
  next
    case (Some c)
    with Fin shortest_search_nonneg [OF d Some] show ?thesis
      by (simp add: shortest_decimal_def)
  qed
qed (use assms in \<open>simp_all add: shortest_decimal_def\<close>)

lemma shortest_decimal_mono:
  assumes "0 \<le> q" and "q \<le> q'"
  shows "shortest_decimal q \<le> shortest_decimal q'"
proof (rule ccontr)
  assume "\<not> shortest_decimal q \<le> shortest_decimal q'"
  then have gt: "shortest_decimal q' < shortest_decimal q"
    by simp
  have q': "0 \<le> q'"
    using assms by simp
  have rv: "round_magnitude (shortest_decimal q') \<le> round_magnitude (shortest_decimal q)"
    using shortest_decimal_nonneg [OF q'] gt by (intro round_magnitude_mono) simp_all
  have rq: "round_magnitude q \<le> round_magnitude q'"
    using assms by (rule round_magnitude_mono)
  show False
  proof (cases "binary64 q = binary64 q'")
    case True
    show False
    proof (cases "binary64 q")
      case (Fin d)
      with True have F': "binary64 q' = Fin d"
        by simp
      show False
      proof (cases "shortest_search 1 d")
        case None
        with Fin F' gt assms(2) show False
          by (simp add: shortest_decimal_def)
      next
        case (Some c)
        with Fin F' gt show False
          by (simp add: shortest_decimal_def)
      qed
    qed (use True gt assms(2) in \<open>simp_all add: shortest_decimal_def\<close>)
  next
    case False
    have fin: "binary64 q = Fin (round_magnitude q)" and small: "round_magnitude q < 2 ^ 1024"
      using False rq by (auto simp add: binary64_def split: if_splits)
    have "binary64 (shortest_decimal q) = Fin (round_magnitude q)"
      using fin by (simp add: binary64_shortest_decimal)
    then have v: "round_magnitude (shortest_decimal q) = round_magnitude q"
      by (simp add: binary64_Fin)
    have "round_magnitude q < round_magnitude (shortest_decimal q')"
    proof (cases "binary64 q'")
      case PosInf
      then have "binary64 (shortest_decimal q') = PosInf"
        by (simp add: binary64_shortest_decimal)
      then show ?thesis
        using small by (simp add: binary64_PosInf)
    next
      case (Fin d')
      then have d': "round_magnitude q' = d'"
        by (simp add: binary64_Fin)
      have "binary64 (shortest_decimal q') = Fin d'"
        using Fin by (simp add: binary64_shortest_decimal)
      then have "round_magnitude (shortest_decimal q') = d'"
        by (simp add: binary64_Fin)
      moreover have "round_magnitude q \<noteq> d'"
        using False fin Fin by auto
      ultimately show ?thesis
        using rq d' by simp
    qed (simp_all add: binary64_def split: if_splits)
    with rv v show False
      by simp
  qed
qed

text \<open>
  Rounding to binary64 is idempotent: a value on the grid of its binade rounds to itself.
  So what \<open>binary64\<close> gives is a binary64 value in the sense of \<open>is_binary64\<close>.
\<close>

lemma exponent_of_less:
  assumes "1 < b" and "0 < a" and "a < b powi (k + 1)"
  shows "exponent_of b a \<le> k"
proof (rule ccontr)
  assume "\<not> exponent_of b a \<le> k"
  then have "k + 1 \<le> exponent_of b a"
    by simp
  then have "b powi (k + 1) \<le> b powi exponent_of b a"
    using assms(1) by (intro power_int_increasing) simp_all
  moreover have "b powi exponent_of b a \<le> a"
    using exponent_of_bounds [OF assms(1,2)] by simp
  ultimately show False
    using assms(3) by linarith
qed

lemma round_magnitude_grid:
  assumes "binade (of_int m * 2 powi (e - 52)) \<le> e"
  shows "round_magnitude (of_int m * 2 powi (e - 52)) = of_int m * 2 powi (e - 52)"
proof -
  define r :: real where "r = of_int m * 2 powi (e - 52)"
  define j where "j = nat (e - binade r)"
  have j: "int j = e - binade r"
    using assms by (simp add: j_def r_def)
  have "r * 2 powi (52 - binade r) = of_int m * (2 powi (e - 52) * 2 powi (52 - binade r))"
    by (simp add: r_def)
  also have "2 powi (e - 52) * 2 powi (52 - binade r) = (2::real) powi (int j)"
    using power_int_add [of "2::real" "e - 52" "52 - binade r"] by (simp add: j)
  also have "of_int m * (2::real) powi (int j) = of_int (m * 2 ^ j)"
    by (simp add: power_int_of_nat)
  finally have "round_half_even (r * 2 powi (52 - binade r)) = m * 2 ^ j"
    by (simp only: round_half_even_of_int)
  then have "round_magnitude r = of_int (m * 2 ^ j) * 2 powi (binade r - 52)"
    by (simp add: round_magnitude_def)
  also have "\<dots> = of_int m * ((2::real) powi (int j) * 2 powi (binade r - 52))"
    by (simp add: power_int_of_nat)
  also have "(2::real) powi (int j) * 2 powi (binade r - 52) = 2 powi (e - 52)"
    using power_int_add [of "2::real" "int j" "binade r - 52"] by (simp add: j)
  finally show ?thesis
    by (simp add: r_def)
qed

lemma round_magnitude_idem:
  assumes "0 \<le> a"
  shows "round_magnitude (round_magnitude a) = round_magnitude a"
proof (cases "a = 0")
  case True
  then show ?thesis
    by (simp add: round_magnitude_zero)
next
  case False
  with assms have a: "0 < a"
    by simp
  define e where "e = binade a"
  define m where "m = round_half_even (a * 2 powi (52 - e))"
  have r: "round_magnitude a = of_int m * 2 powi (e - 52)"
    by (simp add: round_magnitude_def e_def m_def)
  have e: "exponent_of 2 a \<le> e" "- 1022 \<le> e"
    by (simp_all add: e_def binade_def)
  have "a < 2 powi (exponent_of 2 a + 1)"
    using exponent_of_bounds [of 2 a] a by simp
  also have "\<dots> \<le> 2 powi (e + 1)"
    using e(1) by (intro power_int_increasing) simp_all
  finally have "a * 2 powi (52 - e) \<le> 2 powi (e + 1) * 2 powi (52 - e)"
    by (intro mult_right_mono) simp_all
  also have "\<dots> = 2 powi 53"
    using power_int_add [of "2::real" "e + 1" "52 - e"] by simp
  finally have "a * 2 powi (52 - e) \<le> of_int (2 ^ 53)"
    by simp
  then have m53: "m \<le> 2 ^ 53"
    unfolding m_def by (rule round_half_even_le)
  have "of_int 0 \<le> a * 2 powi (52 - e)"
    using a by simp
  then have m0: "0 \<le> m"
    unfolding m_def by (rule round_half_even_ge)
  consider "m = 0" | "0 < m" "m < 2 ^ 53" | "m = 2 ^ 53"
    using m0 m53 by linarith
  then show ?thesis
  proof cases
    case 1
    then show ?thesis
      by (simp add: r round_magnitude_zero)
  next
    case 2
    have pos: "0 < of_int m * (2::real) powi (e - 52)"
      using 2(1) by simp
    have "(of_int m :: real) < of_int (2 ^ 53)"
      using 2(2) by (simp only: of_int_less_iff)
    then have "of_int m * (2::real) powi (e - 52) < of_int (2 ^ 53) * 2 powi (e - 52)"
      by (intro mult_strict_right_mono) simp_all
    also have "\<dots> = 2 powi (e + 1)"
      using power_int_add [of "2::real" 53 "e - 52"] by (simp add: add.commute)
    finally have "exponent_of 2 (of_int m * 2 powi (e - 52)) \<le> e"
      using pos by (intro exponent_of_less) simp_all
    then have "binade (of_int m * 2 powi (e - 52)) \<le> e"
      using e(2) by (simp add: binade_def)
    then show ?thesis
      unfolding r by (rule round_magnitude_grid)
  next
    case 3
    have eq: "of_int m * (2::real) powi (e - 52) = of_int (2 ^ 52) * 2 powi (e + 1 - 52)"
    proof -
      have "of_int m * (2::real) powi (e - 52) = 2 powi (e + 1)"
        using power_int_add [of "2::real" 53 "e - 52"] by (simp add: 3 add.commute)
      moreover have "of_int (2 ^ 52) * (2::real) powi (e + 1 - 52) = 2 powi (e + 1)"
        using power_int_add [of "2::real" 52 "e + 1 - 52"] by (simp add: add.commute)
      ultimately show ?thesis
        by simp
    qed
    have v: "of_int (2 ^ 52) * (2::real) powi (e + 1 - 52) = 2 powi (e + 1)"
      using power_int_add [of "2::real" 52 "e + 1 - 52"] by (simp add: add.commute)
    have "(2::real) powi (e + 1) < 2 powi (e + 1 + 1)"
      by (intro power_int_strict_increasing) simp_all
    then have "exponent_of 2 ((2::real) powi (e + 1)) \<le> e + 1"
      by (intro exponent_of_less) simp_all
    then have "binade (of_int (2 ^ 52) * 2 powi (e + 1 - 52)) \<le> e + 1"
      unfolding v using e(2) by (simp add: binade_def)
    then have "round_magnitude (of_int (2 ^ 52) * 2 powi (e + 1 - 52)) =
        of_int (2 ^ 52) * 2 powi (e + 1 - 52)"
      by (rule round_magnitude_grid)
    then show ?thesis
      unfolding r eq .
  qed
qed

lemma is_binary64_binary64:
  assumes "0 \<le> a" and "binary64 a = Fin r"
  shows "is_binary64 r"
proof -
  have "0 \<le> r"
    using assms round_magnitude_nonneg [OF assms(1)] by (auto simp add: binary64_Fin)
  moreover have "binary64 r = Fin r"
    using assms(2) round_magnitude_idem [OF assms(1)] by (auto simp add: binary64_def split: if_splits)
  ultimately show ?thesis
    by (simp add: is_binary64_def)
qed

lemma is_binary64_negate:
  assumes "0 \<le> a" and "negate (binary64 a) = Fin r"
  shows "is_binary64 r"
proof (cases "binary64 a")
  case (Fin r')
  with assms(2) have "r = - r'"
    by (simp split: if_splits)
  moreover have "is_binary64 r'"
    using assms(1) Fin by (rule is_binary64_binary64)
  ultimately show ?thesis
    by (simp add: is_binary64_def)
qed (use assms(2) in \<open>simp_all add: binary64_def split: if_splits\<close>)

text \<open>Every finite number that \<^verbatim>\<open>Number\<close> reads from a string is a binary64 value.\<close>

lemma Number_is_binary64:
  assumes "Number s = Fin q"
  shows "is_binary64 q"
proof (cases "StringNumericLiteral s")
  case None
  with assms show ?thesis
    by (simp add: Number_def)
next
  case (Some l)
  with assms have v: "literal_value l = Fin q"
    by (simp add: Number_def)
  show ?thesis
  proof (cases l)
    case LitEmpty
    with v show ?thesis
      by (auto simp add: is_binary64_def binary64_zero)
  next
    case (LitNonDecimal n)
    with v show ?thesis
      using is_binary64_binary64 [of "of_nat n" q] by simp
  next
    case (LitInfinity neg)
    with v show ?thesis
      by (simp split: if_splits)
  next
    case (LitDecimal neg m e)
    have "0 \<le> real m * 10 powi e"
      by simp
    with v LitDecimal show ?thesis
      using is_binary64_binary64 [of "real m * 10 powi e" q] is_binary64_negate [of "real m * 10 powi e" q]
      by (simp split: if_splits)
  qed
qed

text \<open>For a binary64 value the shortest decimal converts back to the value itself.\<close>

lemma binary64_shortest_decimal_value:
  assumes "is_binary64 q"
  shows "binary64 (shortest_decimal \<bar>q\<bar>) = Fin \<bar>q\<bar>"
  using assms by (simp add: binary64_shortest_decimal is_binary64_def)


text \<open>
  Seventeen digits always suffice. A binary64 value \<open>d\<close> is a multiple \<open>m\<close> of the unit
  \<open>u\<close> of its binade with \<open>m < 2^53\<close>; every real from \<open>d\<close> up to less than \<open>d + u/2\<close>
  rounds to \<open>d\<close>, and so does every real down to more than \<open>d - u/2\<close> unless \<open>d\<close> is the
  least value of a normal binade. The decimals of 17 digits lie less than \<open>u\<close> apart
  (less than \<open>u/2\<close> at the least value of a binade), since \<open>2^53 < 10^16\<close>; so one of the two
  next to \<open>d\<close> rounds to \<open>d\<close>, and the search of \<open>shortest_decimal\<close> does not fail on a
  binary64 value.
\<close>

lemma exponent_of_ge:
  assumes "1 < b" and "0 < a" and "b powi k \<le> a"
  shows "k \<le> exponent_of b a"
proof (rule ccontr)
  assume "\<not> k \<le> exponent_of b a"
  then have "exponent_of b a + 1 \<le> k"
    by simp
  then have "b powi (exponent_of b a + 1) \<le> b powi k"
    using assms(1) by (intro power_int_increasing) simp_all
  moreover have "a < b powi (exponent_of b a + 1)"
    using exponent_of_bounds [OF assms(1,2)] by simp
  ultimately show False
    using assms(3) by linarith
qed

lemma ulp_scale: "(2::real) powi (e - 52) * 2 powi (52 - e) = 1"
  using power_int_add [of "2::real" "e - 52" "52 - e"] by simp

lemma binary64_grid:
  assumes "is_binary64 d" and "0 < d"
  obtains m where "d = of_int m * 2 powi (binade d - 52)" and "0 < m" and "m < 2 ^ 53"
    and "- 1022 \<le> exponent_of 2 d \<longrightarrow> 2 ^ 52 \<le> m" and "d < 2 ^ 1024"
proof -
  define e where "e = binade d"
  define u :: real where "u = 2 powi (e - 52)"
  define m where "m = round_half_even (d * 2 powi (52 - e))"
  have u: "0 < u"
    by (simp add: u_def)
  have "binary64 d = Fin d"
    using assms by (simp add: is_binary64_def)
  then have rd: "round_magnitude d = d" and small: "d < 2 ^ 1024"
    by (simp_all add: binary64_Fin)
  then have d: "d = of_int m * u"
    by (simp add: round_magnitude_def m_def u_def e_def)
  have scale: "d * 2 powi (52 - e) = of_int m"
  proof -
    have "d * 2 powi (52 - e) = of_int m * (u * 2 powi (52 - e))"
      by (subst d) simp
    then show ?thesis
      by (simp add: u_def ulp_scale)
  qed
  have m0: "0 < m"
  proof (rule ccontr)
    assume "\<not> 0 < m"
    then have "(of_int m :: real) \<le> 0"
      by simp
    then have "of_int m * u \<le> 0"
      using u by (simp add: mult_le_0_iff)
    with d assms(2) show False
      by simp
  qed
  have E: "exponent_of 2 d \<le> e"
    by (simp add: e_def binade_def)
  have "d < 2 powi (exponent_of 2 d + 1)"
    using exponent_of_bounds [of 2 d] assms(2) by simp
  also have "\<dots> \<le> 2 powi (e + 1)"
    using E by (intro power_int_increasing) simp_all
  finally have "d * 2 powi (52 - e) < 2 powi (e + 1) * 2 powi (52 - e)"
    by (intro mult_strict_right_mono) simp_all
  also have "\<dots> = 2 powi 53"
    using power_int_add [of "2::real" "e + 1" "52 - e"] by simp
  finally have "(of_int m :: real) < of_int (2 ^ 53)"
    by (simp add: scale)
  then have m53: "m < 2 ^ 53"
    by (simp only: of_int_less_iff)
  have m52: "2 ^ 52 \<le> m" if "- 1022 \<le> exponent_of 2 d"
  proof -
    have ee: "e = exponent_of 2 d"
      using that by (simp add: e_def binade_def)
    have "2 powi e \<le> d"
      using exponent_of_bounds [of 2 d] assms(2) by (simp add: ee)
    then have "2 powi e * 2 powi (52 - e) \<le> d * 2 powi (52 - e)"
      by (intro mult_right_mono) simp_all
    moreover have "(2::real) powi e * 2 powi (52 - e) = 2 powi 52"
      using power_int_add [of "2::real" e "52 - e"] by simp
    ultimately have "(of_int (2 ^ 52) :: real) \<le> of_int m"
      by (simp add: scale)
    then show ?thesis
      by (simp only: of_int_le_iff)
  qed
  show ?thesis
  proof (rule that [of m])
    show "d = of_int m * 2 powi (binade d - 52)"
      using d unfolding u_def e_def .
    show "- 1022 \<le> exponent_of 2 d \<longrightarrow> 2 ^ 52 \<le> m"
      using m52 by blast
  qed (fact m0 m53 small)+
qed

lemma grid_scale:
  fixes d :: real
  assumes "d = of_int m * 2 powi (e - 52)"
  shows "d * 2 powi (52 - e) = of_int m"
proof -
  have "d * 2 powi (52 - e) = of_int m * (2 powi (e - 52) * 2 powi (52 - e))"
    by (subst assms) (simp only: mult.assoc)
  then show ?thesis
    by (simp add: ulp_scale)
qed

lemma round_magnitude_from_below:
  assumes d: "d = of_int m * 2 powi (binade d - 52)" and m: "0 < m" "m < 2 ^ 53"
    and c: "d \<le> c" "c < d + 2 powi (binade d - 52) / 2"
  shows "round_magnitude c = d"
proof -
  define e where "e = binade d"
  define u :: real where "u = 2 powi (e - 52)"
  have u: "0 < u"
    by (simp add: u_def)
  have du: "d = of_int m * u"
    using d unfolding u_def e_def .
  have scale: "d * 2 powi (52 - e) = of_int m"
    using d unfolding e_def by (rule grid_scale)
  have "0 < of_int m * u"
    using m(1) u by simp
  then have dpos: "0 < d"
    unfolding du .
  then have cpos: "0 < c"
    using c(1) by simp
  have "m \<le> 2 ^ 53 - 1"
    using m(2) by simp
  then have "(of_int m :: real) \<le> of_int (2 ^ 53 - 1)"
    by (simp only: of_int_le_iff)
  then have "of_int m * u \<le> of_int (2 ^ 53 - 1) * u"
    using u by (intro mult_right_mono) simp_all
  then have "d + u / 2 \<le> of_int (2 ^ 53 - 1) * u + u / 2"
    unfolding du by linarith
  also have "\<dots> < 2 ^ 53 * u"
    using u by simp
  also have "\<dots> = 2 powi (e + 1)"
    using power_int_add [of "2::real" 53 "e - 52"] by (simp add: u_def add.commute)
  finally have "c < 2 powi (e + 1)"
    using c(2) by (simp add: u_def e_def)
  then have Ec: "exponent_of 2 c \<le> e"
    using cpos by (intro exponent_of_less) simp_all
  have Ed: "exponent_of 2 d \<le> exponent_of 2 c"
    using dpos c(1) by (intro exponent_of_mono) simp_all
  have bc: "binade c = e"
    using Ec Ed by (simp add: binade_def e_def)
  define y where "y = c * 2 powi (52 - e)"
  have "d * 2 powi (52 - e) \<le> c * 2 powi (52 - e)"
    using c(1) by (intro mult_right_mono) simp_all
  then have lo: "of_int m \<le> y"
    by (simp add: scale y_def)
  have "c * 2 powi (52 - e) < (d + u / 2) * 2 powi (52 - e)"
    using c(2) unfolding u_def e_def by (intro mult_strict_right_mono) simp_all
  also have "\<dots> = d * 2 powi (52 - e) + u * 2 powi (52 - e) / 2"
    by (simp add: algebra_simps)
  also have "\<dots> = of_int m + 1 / 2"
    by (simp add: scale u_def ulp_scale)
  finally have hi: "y < of_int m + 1 / 2"
    by (simp add: y_def)
  have "\<lfloor>y\<rfloor> = m"
    using lo hi by (simp add: floor_eq_iff)
  then have "round_half_even y = m"
    using hi by (simp add: round_half_even_def)
  then have "round_magnitude c = of_int m * u"
    by (simp add: round_magnitude_def bc y_def u_def)
  then show ?thesis
    unfolding du .
qed

lemma round_magnitude_from_above:
  assumes d: "d = of_int m * 2 powi (binade d - 52)" and m: "0 < m" "m < 2 ^ 53"
    and interior: "2 ^ 52 < m \<or> binade d = - 1022"
    and c: "d - 2 powi (binade d - 52) / 2 < c" "c \<le> d"
  shows "round_magnitude c = d"
proof -
  define e where "e = binade d"
  define u :: real where "u = 2 powi (e - 52)"
  have u: "0 < u"
    by (simp add: u_def)
  have du: "d = of_int m * u"
    using d unfolding u_def e_def .
  have scale: "d * 2 powi (52 - e) = of_int m"
    using d unfolding e_def by (rule grid_scale)
  have "0 < of_int m * u"
    using m(1) u by simp
  then have dpos: "0 < d"
    unfolding du .
  have "1 \<le> m"
    using m(1) by simp
  then have "(of_int 1 :: real) \<le> of_int m"
    by (simp only: of_int_le_iff)
  then have "1 * u \<le> of_int m * u"
    using u by (intro mult_right_mono) simp_all
  then have "u \<le> d"
    unfolding du by simp
  moreover have c1: "d - u / 2 < c"
    using c(1) unfolding u_def e_def .
  ultimately have cpos: "0 < c"
    using u by linarith
  have Ec: "exponent_of 2 c \<le> exponent_of 2 d"
    using cpos c(2) by (intro exponent_of_mono) simp_all
  have bc: "binade c = e"
  proof (cases "binade d = - 1022")
    case True
    then have "exponent_of 2 d \<le> - 1022"
      by (simp add: binade_def)
    with Ec True show ?thesis
      by (simp add: binade_def e_def)
  next
    case False
    with interior have big: "2 ^ 52 < m"
      by simp
    from False have Ed: "exponent_of 2 d = e"
      by (simp add: binade_def e_def max_def split: if_splits)
    have "2 ^ 52 + 1 \<le> m"
      using big by simp
    then have "(of_int (2 ^ 52 + 1) :: real) \<le> of_int m"
      by (simp only: of_int_le_iff)
    then have "of_int (2 ^ 52 + 1) * u \<le> of_int m * u"
      using u by (intro mult_right_mono) simp_all
    then have "2 ^ 52 * u + u \<le> d"
      unfolding du by (simp add: algebra_simps)
    then have "2 ^ 52 * u < c"
      using c1 u by linarith
    moreover have "2 ^ 52 * u = 2 powi e"
      using power_int_add [of "2::real" 52 "e - 52"] by (simp add: u_def)
    ultimately have "2 powi e \<le> c"
      by simp
    then have "e \<le> exponent_of 2 c"
      using cpos by (intro exponent_of_ge) simp_all
    with Ec Ed have "exponent_of 2 c = e"
      by simp
    moreover have "- 1022 \<le> e"
      by (simp add: e_def binade_def)
    ultimately show ?thesis
      by (simp add: binade_def)
  qed
  define y where "y = c * 2 powi (52 - e)"
  have "c * 2 powi (52 - e) \<le> d * 2 powi (52 - e)"
    using c(2) by (intro mult_right_mono) simp_all
  then have hi: "y \<le> of_int m"
    by (simp add: scale y_def)
  have "(d - u / 2) * 2 powi (52 - e) < c * 2 powi (52 - e)"
    using c(1) unfolding u_def e_def by (intro mult_strict_right_mono) simp_all
  moreover have "(d - u / 2) * 2 powi (52 - e) = d * 2 powi (52 - e) - u * 2 powi (52 - e) / 2"
    by (simp add: algebra_simps)
  moreover have "d * 2 powi (52 - e) - u * 2 powi (52 - e) / 2 = of_int m - 1 / 2"
    by (simp add: scale u_def ulp_scale)
  ultimately have lo: "of_int m - 1 / 2 < y"
    by (simp add: y_def)
  have "round_half_even y = m"
  proof (cases "y = of_int m")
    case True
    then show ?thesis
      by (simp add: round_half_even_of_int)
  next
    case False
    with hi have "y < of_int m"
      by simp
    with lo have "\<lfloor>y\<rfloor> = m - 1"
      by (simp add: floor_eq_iff)
    then show ?thesis
      using lo by (simp add: round_half_even_def)
  qed
  then have "round_magnitude c = of_int m * u"
    by (simp add: round_magnitude_def bc y_def u_def)
  then show ?thesis
    unfolding du .
qed

lemma seventeen_digits:
  assumes "is_binary64 d" and "0 < d"
  shows "candidate 17 d \<noteq> None"
proof -
  obtain m where d: "d = of_int m * 2 powi (binade d - 52)" and m: "0 < m" "m < 2 ^ 53"
    and normal: "- 1022 \<le> exponent_of 2 d \<longrightarrow> 2 ^ 52 \<le> m" and small: "d < 2 ^ 1024"
    using assms by (rule binary64_grid)
  define u :: real where "u = 2 powi (binade d - 52)"
  define p where "p = exponent_of 10 d"
  define t :: real where "t = 10 powi (p - 16)"
  define lo where "lo = lower_decimal 17 d"
  define hi where "hi = upper_decimal 17 d"
  have u: "0 < u" and t: "0 < t"
    by (simp_all add: u_def t_def)
  have du: "d = of_int m * u"
    using d unfolding u_def .
  have lo: "lo = of_int \<lfloor>d / t\<rfloor> * t" and hi: "hi = lo + t"
    by (simp_all add: lo_def hi_def lower_decimal_def upper_decimal_def t_def p_def)
  have dt: "d / t * t = d"
    using t by simp
  have "of_int \<lfloor>d / t\<rfloor> * t \<le> d / t * t"
    using t by (intro mult_right_mono) simp_all
  then have lo_le: "lo \<le> d"
    unfolding dt lo .
  have "d / t < of_int \<lfloor>d / t\<rfloor> + 1"
    by linarith
  then have "d / t * t < (of_int \<lfloor>d / t\<rfloor> + 1) * t"
    using t by (intro mult_strict_right_mono) simp_all
  then have "d < of_int \<lfloor>d / t\<rfloor> * t + t"
    unfolding dt by (simp add: algebra_simps)
  then have lt_hi: "d < hi"
    unfolding hi lo .
  have "10 powi p \<le> d"
    using exponent_of_bounds [of 10 d] assms(2) by (simp add: p_def)
  moreover have "t * 10 ^ 16 = 10 powi p"
    using power_int_add [of "10::real" "p - 16" 16] by (simp add: t_def)
  ultimately have t16: "t * 10 ^ 16 \<le> d"
    by simp
  have fin: "binary64 c = Fin d" if "round_magnitude c = d" for c
    using that small by (simp add: binary64_def)
  have up: "binary64 hi = Fin d" if "hi < d + u / 2"
  proof -
    have "round_magnitude hi = d"
      using d m lt_hi that unfolding u_def by (intro round_magnitude_from_below) simp_all
    then show ?thesis
      by (rule fin)
  qed
  have "binary64 lo = Fin d \<or> binary64 hi = Fin d"
  proof (cases "2 ^ 52 < m \<or> binade d = - 1022")
    case True
    have "(of_int m :: real) < of_int (2 ^ 53)"
      using m(2) by (simp only: of_int_less_iff)
    then have "of_int m * u < of_int (2 ^ 53) * u"
      using u by (intro mult_strict_right_mono) simp_all
    then have "d < 2 ^ 53 * u"
      unfolding du by simp
    with t16 have "t * 10 ^ 16 < 2 ^ 53 * u"
      by simp
    moreover have "(2::real) ^ 53 * u \<le> 10 ^ 16 * u"
      using u by (intro mult_right_mono) simp_all
    ultimately have tu: "t < u"
      by simp
    show ?thesis
    proof (cases "d - u / 2 < lo")
      case lo_near: True
      have "round_magnitude lo = d"
        using d m True lo_near lo_le unfolding u_def by (intro round_magnitude_from_above) simp_all
      then show ?thesis
        by (simp add: fin)
    next
      case False
      with tu have "hi < d + u / 2"
        by (simp add: hi)
      then show ?thesis
        by (simp add: up)
    qed
  next
    case False
    then have "- 1022 \<le> exponent_of 2 d"
      by (simp add: binade_def max_def split: if_splits)
    with normal False have m52: "m = 2 ^ 52"
      by simp
    have "d = 2 ^ 52 * u"
      unfolding du m52 by simp
    with t16 have "t * 10 ^ 16 \<le> 2 ^ 52 * u"
      by simp
    moreover have "(2::real) ^ 52 * u < 10 ^ 16 * (u / 2)"
      using u by simp
    ultimately have "t < u / 2"
      by simp
    with lo_le have "hi < d + u / 2"
      by (simp add: hi)
    then show ?thesis
      by (simp add: up)
  qed
  then show ?thesis
    unfolding lo_def hi_def by (auto simp add: candidate_def)
qed

lemma shortest_search_finds:
  assumes "candidate 17 d \<noteq> None" and "k \<le> 17"
  shows "shortest_search k d \<noteq> None"
  using assms(2)
proof (induction "17 - k" arbitrary: k)
  case 0
  then have "k = 17"
    by simp
  with assms(1) show ?case
    by (subst shortest_search.simps) (auto split: option.splits)
next
  case (Suc n)
  then have k: "k < 17" and n: "n = 17 - Suc k"
    by simp_all
  show ?case
  proof (cases "candidate k d")
    case None
    have "shortest_search (Suc k) d \<noteq> None"
      using n k by (intro Suc.hyps(1)) simp_all
    with None k show ?thesis
      by (subst shortest_search.simps) simp
  next
    case (Some c)
    with k show ?thesis
      by (subst shortest_search.simps) simp
  qed
qed

lemma shortest_decimal_found:
  assumes "is_binary64 q"
  obtains c where "shortest_search 1 \<bar>q\<bar> = Some c" and "shortest_decimal \<bar>q\<bar> = c"
proof -
  have b: "binary64 \<bar>q\<bar> = Fin \<bar>q\<bar>"
    using assms by (simp add: is_binary64_def)
  have "candidate 17 \<bar>q\<bar> \<noteq> None"
  proof (cases "q = 0")
    case True
    have "lower_decimal 17 0 = 0"
      by (simp add: lower_decimal_def)
    then show ?thesis
      using True by (simp add: candidate_def binary64_zero)
  next
    case False
    have "is_binary64 \<bar>q\<bar>"
      using assms by (simp add: is_binary64_def)
    then show ?thesis
      using False by (intro seventeen_digits) simp_all
  qed
  then have "shortest_search 1 \<bar>q\<bar> \<noteq> None"
    by (rule shortest_search_finds) simp
  then obtain c where c: "shortest_search 1 \<bar>q\<bar> = Some c"
    by auto
  then have "shortest_decimal \<bar>q\<bar> = c"
    by (simp add: shortest_decimal_def b)
  with c show ?thesis
    by (rule that)
qed

text \<open>Rounding to binary64 moves a magnitude by at most half the unit of its binade.\<close>

lemma round_half_even_near: "\<bar>of_int (round_half_even y) - y\<bar> \<le> 1 / 2"
  unfolding round_half_even_def by (simp split: if_splits)

lemma round_magnitude_near: "\<bar>round_magnitude a - a\<bar> \<le> 2 powi (binade a - 52) / 2"
proof -
  define e where "e = binade a"
  define u :: real where "u = 2 powi (e - 52)"
  define y where "y = a * 2 powi (52 - e)"
  have u: "0 < u"
    by (simp add: u_def)
  have a: "a = y * u"
    using ulp_scale [of e] by (simp add: y_def u_def mult.assoc mult.commute [of "2 powi (52 - e)"])
  have "round_magnitude a - a = (of_int (round_half_even y) - y) * u"
    by (subst (2) a) (simp add: round_magnitude_def e_def [symmetric] y_def [symmetric] u_def [symmetric] algebra_simps)
  then have "\<bar>round_magnitude a - a\<bar> = \<bar>of_int (round_half_even y) - y\<bar> * u"
    using u by (simp add: abs_mult)
  also have "\<dots> \<le> 1 / 2 * u"
    using u round_half_even_near [of y] by (intro mult_right_mono) simp_all
  finally show ?thesis
    by (simp add: u_def e_def)
qed

lemma binade_le:
  assumes "0 \<le> a" and "a < 2 powi (k + 1)" and "0 \<le> k"
  shows "binade a \<le> k"
proof (cases "a = 0")
  case True
  then show ?thesis
    using assms(3) by (simp add: binade_def exponent_of.simps)
next
  case False
  with assms(1) have "0 < a"
    by simp
  then have "exponent_of 2 a \<le> k"
    using assms(2) by (intro exponent_of_less) simp_all
  then show ?thesis
    using assms(3) by (simp add: binade_def)
qed

lemma round_magnitude_near_bounded:
  assumes "0 \<le> a" and "a < 2 powi (k + 1)" and "0 \<le> k"
  shows "\<bar>round_magnitude a - a\<bar> \<le> 2 powi (k - 52) / 2"
proof -
  have "(2::real) powi (binade a - 52) \<le> 2 powi (k - 52)"
    using binade_le [OF assms] by (intro power_int_increasing) simp_all
  with round_magnitude_near [of a] show ?thesis
    by linarith
qed

lemma round_magnitude_power: 
  assumes "0 \<le> k"
  shows "round_magnitude (2 powi k) = 2 powi k"
proof -
  have v: "of_int (2 ^ 52) * (2::real) powi (k - 52) = 2 powi k"
    using power_int_add [of "2::real" 52 "k - 52"] by simp
  have "(2::real) powi k < 2 powi (k + 1)"
    by (intro power_int_strict_increasing) simp_all
  then have "exponent_of 2 ((2::real) powi k) \<le> k"
    by (intro exponent_of_less) simp_all
  then have "binade (of_int (2 ^ 52) * 2 powi (k - 52)) \<le> k"
    unfolding v using assms by (simp add: binade_def)
  then have "round_magnitude (of_int (2 ^ 52) * 2 powi (k - 52)) = of_int (2 ^ 52) * 2 powi (k - 52)"
    by (rule round_magnitude_grid)
  then show ?thesis
    unfolding v .
qed

text \<open>
  The formatter at work: the binary64 value nearest to \<open>0.1234565\<close> is less than
  \<open>0.1234565\<close>, but its shortest decimal is \<^verbatim>\<open>0.1234565\<close>, which rounds up; the digits of
  \<open>2^70\<close> after the seventeenth are zeros. And the conversion from a string: \<^verbatim>\<open>0.1\<close> is read
  as the binary64 value nearest to it, a literal beyond the binary64 range as infinity, and
  one under it as zero.
\<close>

lemma binary64_below_decimal:
  "binary64 (1234565 / 10000000) = Fin (4447989179171725 / 36028797018963968) \<and>
   (4447989179171725 / 36028797018963968 :: real) < 1234565 / 10000000"
  by (simp add: binary64_def round_magnitude_def binade_def round_half_even_def exponent_of.simps)

lemma formatCoordinate_shortest_decimal:
  "formatCoordinate (Fin (4447989179171725 / 36028797018963968)) = ''0.123457''"
  by (simp add: number_eval)

lemma formatCoordinate_seventeen_digits:
  "formatCoordinate (Fin (2 ^ 70)) = ''1180591620717411300000''"
  by (simp add: number_eval)

lemma Number_rounds: "Number ''0.1'' = Fin (3602879701896397 / 36028797018963968)"
  by (simp add: number_eval)

lemma Number_overflow: "Number ''1e309'' = PosInf"
proof -
  have "StringNumericLiteral ''1e309'' = Some (LitDecimal False 1 309)"
    by (simp add: StringNumericLiteral_def trim_def is_white_space_def NonDecimalIntegerLiteral_def
        StrUnsignedDecimalLiteral_def is_digit_def digit_table_def digit_val_def digits_val_def
        ExponentPart_opt_def SignedInteger_def DecimalDigits_def Let_def)
  moreover have "binary64 (of_nat 1 * 10 powi 309) = PosInf"
    by (rule binary64_overflow) simp
  ultimately show ?thesis
    by (simp add: Number_def)
qed

lemma Number_underflow: "Number ''-1e-400'' = NegZero"
proof -
  have "StringNumericLiteral ''-1e-400'' = Some (LitDecimal True 1 (- 400))"
    by (simp add: StringNumericLiteral_def trim_def is_white_space_def NonDecimalIntegerLiteral_def
        StrUnsignedDecimalLiteral_def is_digit_def digit_table_def digit_val_def digits_val_def
        ExponentPart_opt_def SignedInteger_def DecimalDigits_def Let_def)
  moreover have "binary64 (of_nat 1 * 10 powi (- 400)) = Fin 0"
    by (rule binary64_underflow) simp_all
  ultimately show ?thesis
    by (simp add: Number_def)
qed


section \<open>Reading back a formatted coordinate\<close>

text \<open>
  What \<^verbatim>\<open>formatCoordinate\<close> writes for a finite number is an integer part of at least one
  digit, and, unless the fraction is zero, a point and at most six fraction digits. Read
  as a decimal literal it is the binary64 value nearest to the rounded magnitude,
  \<open>n / 10^6\<close>.
\<close>

lemma fixed_digits_shape:
  obtains a b where "fixed_digits n = a @ (if b = [] then [] else CHR ''.'' # b)"
    and "a \<noteq> []" and "list_all is_digit a" and "list_all is_digit b" and "length b \<le> 6"
    and "digits_val (a @ b) * 10 ^ (6 - length b) = n"
proof -
  define m0 where "m0 = string_of_nat n"
  define m where "m = (if length m0 \<le> 6 then replicate (7 - length m0) (CHR ''0'') @ m0 else m0)"
  define a where "a = take (length m - 6) m"
  define bb where "bb = drop (length m - 6) m"
  define b where "b = strip_trailing_zeros bb"
  have zero_digit: "is_digit (CHR ''0'')"
    by (simp add: is_digit_def digit_table_def)
  have m_digits: "list_all is_digit m"
    using string_of_nat_digits [of n] zero_digit by (simp add: m_def m0_def list_all_iff)
  have m_val: "digits_val m = n"
    by (simp add: m_def m0_def digits_val_leading_zeros digits_val_string_of_nat)
  have m_len: "7 \<le> length m"
    by (simp add: m_def)
  have split: "a @ bb = m" and bb_len: "length bb = 6" and a_ne: "a \<noteq> []"
    using m_len by (auto simp add: a_def bb_def)
  obtain k where k: "bb = b @ replicate k (CHR ''0'')" "length b + k = length bb"
    using strip_trailing_zeros_decomp [of bb] unfolding b_def by blast
  have "digits_val (a @ b @ replicate k (CHR ''0'')) = digits_val (a @ b) * 10 ^ k"
    using digits_val_trailing_zeros [of "a @ b" k] by simp
  with k(1) split m_val have val: "digits_val (a @ b) * 10 ^ k = n"
    by simp
  have "fixed_digits n = a @ (if b = [] then [] else CHR ''.'' # b)"
    by (simp add: fixed_digits_def Let_def m0_def [symmetric] m_def [symmetric] a_def [symmetric]
        bb_def [symmetric] b_def [symmetric])
  moreover have "list_all is_digit a" "list_all is_digit b"
    using m_digits split k(1) by (auto simp add: list_all_iff)
  moreover have "length b \<le> 6" "6 - length b = k"
    using k(2) bb_len by auto
  ultimately show ?thesis
    using that a_ne val by blast
qed

lemma takeWhile_digits_prefix:
  assumes "list_all is_digit a" and "r = [] \<or> \<not> is_digit (hd r)"
  shows "takeWhile is_digit (a @ r) = a" and "dropWhile is_digit (a @ r) = r"
proof -
  have all: "\<And>x. x \<in> set a \<Longrightarrow> is_digit x"
    using assms(1) by (simp add: list_all_iff)
  have r: "takeWhile is_digit r = []" "dropWhile is_digit r = r"
    using assms(2) by (cases r; simp)+
  show "takeWhile is_digit (a @ r) = a"
    using takeWhile_append2 [of a is_digit r] all r by simp
  show "dropWhile is_digit (a @ r) = r"
    using dropWhile_append2 [of a is_digit r] all r by simp
qed

lemma StrUnsignedDecimalLiteral_fixed:
  assumes "a \<noteq> []" and "list_all is_digit a" and "list_all is_digit b"
  shows "StrUnsignedDecimalLiteral neg (a @ (if b = [] then [] else CHR ''.'' # b)) =
    Some (LitDecimal neg (digits_val (a @ b)) (- int (length b)))"
proof -
  let ?s = "a @ (if b = [] then [] else CHR ''.'' # b)"
  have dot: "\<not> is_digit (CHR ''.'')" and I: "\<not> is_digit (CHR ''I'')"
    by (simp_all add: is_digit_def digit_table_def)
  have "is_digit (hd ?s)"
    using assms(1,2) by (cases a) simp_all
  with I have not_inf: "?s \<noteq> ''Infinity''"
    by auto
  have ip: "takeWhile is_digit ?s = a" and r: "dropWhile is_digit ?s = (if b = [] then [] else CHR ''.'' # b)"
    using takeWhile_digits_prefix [OF assms(2), of "if b = [] then [] else CHR ''.'' # b"] dot
    by simp_all
  have fp: "takeWhile is_digit b = b" "dropWhile is_digit b = []"
    using takeWhile_digits_prefix [OF assms(3), of "[]"] by simp_all
  show ?thesis
  proof (cases "b = []")
    case True
    then show ?thesis
      unfolding StrUnsignedDecimalLiteral_def Let_def ip r
      using not_inf assms(1) by (simp add: ExponentPart_opt_def)
  next
    case False
    then show ?thesis
      unfolding StrUnsignedDecimalLiteral_def Let_def ip r
      using not_inf assms(1) by (simp add: ExponentPart_opt_def fp)
  qed
qed

lemma digit_char_facts:
  assumes "is_digit c"
  shows "\<not> is_white_space c" and "c \<noteq> CHR ''+''" and "c \<noteq> CHR ''-''" and "c \<noteq> CHR ''.''"
    and "c \<noteq> CHR '',''" and "c \<noteq> CHR ''I''"
    and "c \<noteq> CHR ''x''" and "c \<noteq> CHR ''X''" and "c \<noteq> CHR ''o''" and "c \<noteq> CHR ''O''"
    and "c \<noteq> CHR ''b''" and "c \<noteq> CHR ''B''"
  using assms by (auto simp add: is_digit_iff is_white_space_def)

lemma fixed_digits_chars: "list_all (\<lambda>c. is_digit c \<or> c = CHR ''.'') (fixed_digits n)"
proof -
  obtain a b where s: "fixed_digits n = a @ (if b = [] then [] else CHR ''.'' # b)"
    and d: "list_all is_digit a" "list_all is_digit b"
    by (rule fixed_digits_shape)
  from d show ?thesis
    unfolding s by (auto simp add: list_all_iff)
qed

lemma fixed_digits_nonempty: "fixed_digits n \<noteq> []"
  by (rule fixed_digits_shape [of n]) simp

lemma trim_decimal:
  assumes "list_all (\<lambda>c. is_digit c \<or> c = CHR ''.'' \<or> c = CHR ''-'') s"
  shows "trim s = s"
proof -
  have no: "\<And>c. c \<in> set s \<Longrightarrow> \<not> is_white_space c"
    using assms digit_char_facts(1) by (auto simp add: list_all_iff is_white_space_def)
  have keep: "\<And>xs. (\<And>c. c \<in> set xs \<Longrightarrow> \<not> is_white_space c) \<Longrightarrow> dropWhile is_white_space xs = xs"
    subgoal for xs by (cases xs) simp_all
    done
  have "dropWhile is_white_space s = s"
    using no by (rule keep)
  moreover have "dropWhile is_white_space (rev s) = rev s"
    using no by (intro keep) simp
  ultimately show ?thesis
    by (simp add: trim_def)
qed

lemma NonDecimalIntegerLiteral_decimal:
  assumes "list_all (\<lambda>c. is_digit c \<or> c = CHR ''.'' \<or> c = CHR ''-'') s"
  shows "NonDecimalIntegerLiteral s = None"
proof (cases s)
  case Nil
  then show ?thesis by (simp add: NonDecimalIntegerLiteral_def)
next
  case (Cons c0 r)
  show ?thesis
  proof (cases r)
    case Nil
    with Cons show ?thesis by (simp add: NonDecimalIntegerLiteral_def)
  next
    case (Cons c1 ds)
    with \<open>s = c0 # r\<close> assms have "is_digit c1 \<or> c1 = CHR ''.'' \<or> c1 = CHR ''-''"
      by simp
    then consider "is_digit c1" | "c1 = CHR ''.''" | "c1 = CHR ''-''"
      by blast
    then have "c1 \<noteq> CHR ''x'' \<and> c1 \<noteq> CHR ''X'' \<and> c1 \<noteq> CHR ''o'' \<and> c1 \<noteq> CHR ''O'' \<and>
      c1 \<noteq> CHR ''b'' \<and> c1 \<noteq> CHR ''B''"
    proof cases
      case 1
      then show ?thesis by (simp add: digit_char_facts)
    qed simp_all
    with Cons \<open>s = c0 # r\<close> show ?thesis
      by (simp add: NonDecimalIntegerLiteral_def)
  qed
qed

lemma fixed_digits_value:
  assumes "length b \<le> 6" and "digits_val (a @ b) * 10 ^ (6 - length b) = n"
  shows "real (digits_val (a @ b)) * 10 powi (- int (length b)) = real n / 10 ^ 6"
proof -
  have "(10::real) ^ 6 = 10 ^ (6 - length b) * 10 ^ length b"
    using assms(1) by (simp add: power_add [symmetric])
  moreover have "real n = real (digits_val (a @ b)) * 10 ^ (6 - length b)"
    using assms(2) by (metis of_nat_mult of_nat_numeral of_nat_power)
  ultimately show ?thesis
    by (simp add: power_int_minus field_simps)
qed

lemma StringNumericLiteral_unsigned:
  assumes "list_all (\<lambda>c. is_digit c \<or> c = CHR ''.'') s" and "s \<noteq> []"
  shows "StringNumericLiteral s = StrUnsignedDecimalLiteral False s"
proof -
  have chars: "list_all (\<lambda>c. is_digit c \<or> c = CHR ''.'' \<or> c = CHR ''-'') s"
    using assms(1) by (auto simp add: list_all_iff)
  obtain c r where s: "s = c # r"
    using assms(2) by (cases s) auto
  with assms(1) consider "is_digit c" | "c = CHR ''.''"
    by auto
  then have "c \<noteq> CHR ''+'' \<and> c \<noteq> CHR ''-''"
  proof cases
    case 1
    then show ?thesis by (simp add: digit_char_facts)
  qed simp
  then show ?thesis
    unfolding StringNumericLiteral_def Let_def trim_decimal [OF chars]
      NonDecimalIntegerLiteral_decimal [OF chars]
    by (simp add: s)
qed

lemma StringNumericLiteral_negative:
  assumes "list_all (\<lambda>c. is_digit c \<or> c = CHR ''.'') s"
  shows "StringNumericLiteral (CHR ''-'' # s) = StrUnsignedDecimalLiteral True s"
proof -
  have chars: "list_all (\<lambda>c. is_digit c \<or> c = CHR ''.'' \<or> c = CHR ''-'') (CHR ''-'' # s)"
    using assms(1) by (auto simp add: list_all_iff)
  show ?thesis
    unfolding StringNumericLiteral_def Let_def trim_decimal [OF chars]
      NonDecimalIntegerLiteral_decimal [OF chars]
    by simp
qed

lemma StringNumericLiteral_fixed_digits:
  "\<exists>m e. StringNumericLiteral (fixed_digits n) = Some (LitDecimal False m e) \<and>
         real m * 10 powi e = real n / 10 ^ 6"
proof -
  obtain a b where s: "fixed_digits n = a @ (if b = [] then [] else CHR ''.'' # b)"
    and a: "a \<noteq> []" "list_all is_digit a" and b: "list_all is_digit b" "length b \<le> 6"
    and v: "digits_val (a @ b) * 10 ^ (6 - length b) = n"
    by (rule fixed_digits_shape)
  have "StringNumericLiteral (fixed_digits n) = StrUnsignedDecimalLiteral False (fixed_digits n)"
    using fixed_digits_chars fixed_digits_nonempty by (rule StringNumericLiteral_unsigned)
  also have "\<dots> = Some (LitDecimal False (digits_val (a @ b)) (- int (length b)))"
    unfolding s by (rule StrUnsignedDecimalLiteral_fixed [OF a b(1)])
  finally have "StringNumericLiteral (fixed_digits n) =
      Some (LitDecimal False (digits_val (a @ b)) (- int (length b)))" .
  then show ?thesis
    using fixed_digits_value [OF b(2) v] by (intro exI conjI)
qed

lemma StringNumericLiteral_minus_fixed_digits:
  "\<exists>m e. StringNumericLiteral (CHR ''-'' # fixed_digits n) = Some (LitDecimal True m e) \<and>
         real m * 10 powi e = real n / 10 ^ 6"
proof -
  obtain a b where s: "fixed_digits n = a @ (if b = [] then [] else CHR ''.'' # b)"
    and a: "a \<noteq> []" "list_all is_digit a" and b: "list_all is_digit b" "length b \<le> 6"
    and v: "digits_val (a @ b) * 10 ^ (6 - length b) = n"
    by (rule fixed_digits_shape)
  have "StringNumericLiteral (CHR ''-'' # fixed_digits n) = StrUnsignedDecimalLiteral True (fixed_digits n)"
    using fixed_digits_chars by (rule StringNumericLiteral_negative)
  also have "\<dots> = Some (LitDecimal True (digits_val (a @ b)) (- int (length b)))"
    unfolding s by (rule StrUnsignedDecimalLiteral_fixed [OF a b(1)])
  finally have "StringNumericLiteral (CHR ''-'' # fixed_digits n) =
      Some (LitDecimal True (digits_val (a @ b)) (- int (length b)))" .
  then show ?thesis
    using fixed_digits_value [OF b(2) v] by (intro exI conjI)
qed

lemma Number_fixed_digits: "Number (fixed_digits n) = binary64 (real n / 10 ^ 6)"
proof -
  obtain m e where l: "StringNumericLiteral (fixed_digits n) = Some (LitDecimal False m e)"
    and v: "real m * 10 powi e = real n / 10 ^ 6"
    using StringNumericLiteral_fixed_digits [of n] by blast
  have "Number (fixed_digits n) = binary64 (real m * 10 powi e)"
    by (simp add: Number_def l)
  then show ?thesis
    by (simp only: v)
qed

lemma Number_minus_fixed_digits:
  "Number (CHR ''-'' # fixed_digits n) = negate (binary64 (real n / 10 ^ 6))"
proof -
  obtain m e where l: "StringNumericLiteral (CHR ''-'' # fixed_digits n) = Some (LitDecimal True m e)"
    and v: "real m * 10 powi e = real n / 10 ^ 6"
    using StringNumericLiteral_minus_fixed_digits [of n] by blast
  have "Number (CHR ''-'' # fixed_digits n) = negate (binary64 (real m * 10 powi e))"
    by (simp add: Number_def l)
  then show ?thesis
    by (simp only: v)
qed

lemma Number_formatCoordinate:
  assumes "isFinite x"
  shows "Number (formatCoordinate x) = round6 x"
proof (cases x)
  case (Fin q)
  show ?thesis
  proof (cases "q < 0")
    case True
    define k where "k = nat \<lfloor>shortest_decimal (- q) * 10 ^ 6 + 1 / 2\<rfloor>"
    have "formatCoordinate x = CHR ''-'' # fixed_digits k"
      using True Fin by (simp add: ToRawFixed_def k_def)
    then have "Number (formatCoordinate x) = negate (binary64 (real k / 10 ^ 6))"
      by (simp only: Number_minus_fixed_digits)
    moreover have "round6 x = negate (binary64 (real k / 10 ^ 6))"
      using True Fin by (simp add: round6_def half_expand6_def k_def)
    ultimately show ?thesis
      by simp
  next
    case False
    define k where "k = nat \<lfloor>shortest_decimal q * 10 ^ 6 + 1 / 2\<rfloor>"
    have "formatCoordinate x = fixed_digits k"
      using False Fin by (simp add: ToRawFixed_def k_def)
    then have "Number (formatCoordinate x) = binary64 (real k / 10 ^ 6)"
      by (simp only: Number_fixed_digits)
    moreover have "round6 x = binary64 (real k / 10 ^ 6)"
      using False Fin by (simp add: round6_def half_expand6_def k_def)
    ultimately show ?thesis
      by simp
  qed
next
  case NegZero
  have "formatCoordinate NegZero = CHR ''-'' # fixed_digits 0"
    by (simp add: ToRawFixed_def)
  then have "Number (formatCoordinate NegZero) = negate (binary64 (real 0 / 10 ^ 6))"
    by (simp only: Number_minus_fixed_digits)
  then have "Number (formatCoordinate NegZero) = NegZero"
    by (simp add: binary64_zero)
  then show ?thesis
    using NegZero by (simp add: round6_def)
qed (use assms in \<open>simp_all add: isFinite_def\<close>)

lemma formatCoordinate_chars:
  assumes "isFinite x"
  shows "list_all (\<lambda>c. is_digit c \<or> c = CHR ''.'' \<or> c = CHR ''-'') (formatCoordinate x)"
proof -
  have "\<And>n. list_all (\<lambda>c. is_digit c \<or> c = CHR ''.'' \<or> c = CHR ''-'') (fixed_digits n)"
    using fixed_digits_chars by (auto simp add: list_all_iff)
  with assms show ?thesis
    by (cases x) (simp_all add: isFinite_def ToRawFixed_def)
qed

lemma formatCoordinate_no_comma:
  assumes "isFinite x"
  shows "CHR '','' \<notin> set (formatCoordinate x)"
proof
  assume "CHR '','' \<in> set (formatCoordinate x)"
  with formatCoordinate_chars [OF assms] have "is_digit (CHR '','')"
    by (auto simp add: list_all_iff)
  then show False
    by (simp add: is_digit_def digit_table_def)
qed

lemma formatCoordinate_nonempty: "formatCoordinate x \<noteq> []"
  by (cases x) (simp_all add: ToRawFixed_def fixed_digits_nonempty infinity_sign_def)


section \<open>Minimum, maximum and rounding\<close>

lemma Math_min_commute: "Math_min a b = Math_min b a"
  by (cases a; cases b) (auto simp add: Math_min_def js_lt_def)

lemma Math_max_commute: "Math_max a b = Math_max b a"
  by (cases a; cases b) (auto simp add: Math_max_def js_lt_def)

lemma Math_min_is_min:
  assumes "\<not> isNaN a" and "\<not> isNaN b"
  shows "(Math_min a b = a \<or> Math_min a b = b) \<and> js_le (Math_min a b) a \<and> js_le (Math_min a b) b"
  using assms by (cases a; cases b) (auto simp add: Math_min_def js_lt_def js_le_def isNaN_def)

lemma Math_max_is_max:
  assumes "\<not> isNaN a" and "\<not> isNaN b"
  shows "(Math_max a b = a \<or> Math_max a b = b) \<and> js_le a (Math_max a b) \<and> js_le b (Math_max a b)"
  using assms by (cases a; cases b) (auto simp add: Math_max_def js_lt_def js_le_def isNaN_def)

lemma Math_min_le_Math_max:
  assumes "\<not> isNaN a" and "\<not> isNaN b"
  shows "js_le (Math_min a b) (Math_max a b)"
  using assms by (cases a; cases b) (auto simp add: Math_min_def Math_max_def js_lt_def js_le_def isNaN_def)

text \<open>\<^verbatim>\<open>Math.min\<close> and \<^verbatim>\<open>Math.max\<close> pick by the order \<open>below\<close>, and rounding to six decimals
  keeps that order.\<close>

lemma isFinite_not_NaN: "isFinite x \<Longrightarrow> \<not> isNaN x"
  by (simp add: isFinite_def isNaN_def)

lemma Math_min_below:
  assumes "\<not> isNaN a" and "\<not> isNaN b"
  shows "Math_min a b = (if below a b then a else b)"
  using assms by (cases a; cases b) (auto simp add: Math_min_def below_def js_lt_def isNaN_def)

lemma Math_max_below:
  assumes "\<not> isNaN a" and "\<not> isNaN b"
  shows "Math_max a b = (if below a b then b else a)"
  using assms by (cases a; cases b) (auto simp add: Math_max_def below_def js_lt_def isNaN_def)

lemma below_total: "below a b \<or> below b a"
  by (cases a; cases b) (auto simp add: below_def)

lemma below_js_le:
  assumes "\<not> isNaN x" and "\<not> isNaN y" and "below x y"
  shows "js_le x y"
  using assms by (cases x; cases y) (auto simp add: below_def js_le_def isNaN_def)

lemma isFinite_Math_min: "isFinite a \<Longrightarrow> isFinite b \<Longrightarrow> isFinite (Math_min a b)"
  by (simp add: Math_min_below isFinite_not_NaN)

lemma isFinite_Math_max: "isFinite a \<Longrightarrow> isFinite b \<Longrightarrow> isFinite (Math_max a b)"
  by (simp add: Math_max_below isFinite_not_NaN)

lemma Math_min_below_Math_max:
  assumes "\<not> isNaN a" and "\<not> isNaN b"
  shows "below (Math_min a b) (Math_max a b)"
  using assms below_total [of a b]
  by (cases "below a b") (auto simp add: Math_min_below Math_max_below below_def)

lemma binary64_below:
  assumes "0 \<le> a" and "a \<le> a'"
  shows "below (binary64 a) (binary64 a')"
  using round_magnitude_mono [OF assms] by (auto simp add: binary64_def below_def)

lemma negate_below:
  assumes "X = PosInf \<or> (\<exists>r\<ge>0. X = Fin r)" and "Y = PosInf \<or> (\<exists>r\<ge>0. Y = Fin r)" and "below X Y"
  shows "below (negate Y) (negate X)"
  using assms by (auto simp add: below_def split: if_splits)

lemma negate_below_nonneg:
  assumes "X = PosInf \<or> (\<exists>r\<ge>0. X = Fin r)" and "Y = PosInf \<or> (\<exists>r\<ge>0. Y = Fin r)"
  shows "below (negate X) Y"
  using assms by (auto simp add: below_def split: if_splits)

lemma negate_below_NegZero:
  assumes "X = PosInf \<or> (\<exists>r\<ge>0. X = Fin r)"
  shows "below (negate X) NegZero"
  using assms by (auto simp add: below_def split: if_splits)

lemma NegZero_below_nonneg:
  assumes "Y = PosInf \<or> (\<exists>r\<ge>0. Y = Fin r)"
  shows "below NegZero Y"
  using assms by (auto simp add: below_def)

lemma half_expand6_nonneg: "0 \<le> half_expand6 y"
  by (simp add: half_expand6_def)

lemma half_expand6_mono:
  assumes "y \<le> y'"
  shows "half_expand6 y \<le> half_expand6 y'"
proof -
  have "\<lfloor>y * 10 ^ 6 + 1 / 2\<rfloor> \<le> \<lfloor>y' * 10 ^ 6 + 1 / 2\<rfloor>"
    using assms by (intro floor_mono) simp
  then have "nat \<lfloor>y * 10 ^ 6 + 1 / 2\<rfloor> \<le> nat \<lfloor>y' * 10 ^ 6 + 1 / 2\<rfloor>"
    by simp
  then have "real (nat \<lfloor>y * 10 ^ 6 + 1 / 2\<rfloor>) \<le> real (nat \<lfloor>y' * 10 ^ 6 + 1 / 2\<rfloor>)"
    by (simp only: of_nat_le_iff)
  then show ?thesis
    unfolding half_expand6_def by (rule divide_right_mono) simp
qed

lemma displayed_shape:
  "binary64 (half_expand6 y) = PosInf \<or> (\<exists>r\<ge>0. binary64 (half_expand6 y) = Fin r)"
  using half_expand6_nonneg by (rule binary64_shape)

lemma displayed_below:
  assumes "0 \<le> q" and "q \<le> q'"
  shows "below (binary64 (half_expand6 (shortest_decimal q))) (binary64 (half_expand6 (shortest_decimal q')))"
  using half_expand6_nonneg half_expand6_mono [OF shortest_decimal_mono [OF assms]]
  by (rule binary64_below)

lemma round6_not_NaN:
  assumes "\<not> isNaN x"
  shows "\<not> isNaN (round6 x)"
proof (cases x)
  case (Fin q)
  have "\<not> isNaN (negate (binary64 a))" for a
    by (simp add: binary64_def isNaN_def)
  then show ?thesis
    using Fin by (simp add: round6_def binary64_not_NaN)
qed (use assms in \<open>simp_all add: round6_def\<close>)

lemma below_round6:
  assumes "isFinite x" and "isFinite y" and "below x y"
  shows "below (round6 x) (round6 y)"
proof -
  have zero: "round6 NegZero = NegZero"
    by (simp add: round6_def)
  have pos: "round6 (Fin q) = binary64 (half_expand6 (shortest_decimal q))" if "0 \<le> q" for q
    using that by (simp add: round6_def)
  have neg: "round6 (Fin q) = negate (binary64 (half_expand6 (shortest_decimal (- q))))" if "q < 0" for q
    using that by (simp add: round6_def)
  show ?thesis
  proof (cases x)
    case NegZero
    note x = this
    show ?thesis
    proof (cases y)
      case (Fin q')
      with x assms(3) have "0 \<le> q'"
        by (auto simp add: below_def)
      then show ?thesis
        unfolding x Fin zero pos [OF \<open>0 \<le> q'\<close>]
        by (intro NegZero_below_nonneg displayed_shape)
    qed (use x assms zero in \<open>simp_all add: isFinite_def below_def\<close>)
  next
    case (Fin q)
    note x = this
    show ?thesis
    proof (cases y)
      case NegZero
      with x assms(3) have q: "q < 0"
        by (auto simp add: below_def)
      show ?thesis
        unfolding x NegZero zero neg [OF q]
        by (intro negate_below_NegZero displayed_shape)
    next
      case (Fin q')
      with x assms(3) have le: "q \<le> q'"
        by (auto simp add: below_def)
      consider "q' < 0" | "q < 0" "0 \<le> q'" | "0 \<le> q"
        by linarith
      then show ?thesis
      proof cases
        case 1
        with le have q: "q < 0"
          by simp
        have "below (binary64 (half_expand6 (shortest_decimal (- q'))))
            (binary64 (half_expand6 (shortest_decimal (- q))))"
          using 1 le by (intro displayed_below) simp_all
        then show ?thesis
          unfolding x Fin neg [OF q] neg [OF 1]
          by (intro negate_below displayed_shape)
      next
        case 2
        show ?thesis
          unfolding x Fin neg [OF 2(1)] pos [OF 2(2)]
          by (intro negate_below_nonneg displayed_shape)
      next
        case 3
        with le have q': "0 \<le> q'"
          by simp
        show ?thesis
          unfolding x Fin pos [OF 3] pos [OF q']
          using 3 le by (rule displayed_below)
      qed
    qed (use x assms in \<open>simp_all add: isFinite_def\<close>)
  qed (use assms in \<open>simp_all add: isFinite_def\<close>)
qed

lemma Math_min_max_round6:
  assumes "isFinite a" and "isFinite b"
  shows "Math_min (round6 (Math_min a b)) (round6 (Math_max a b)) = round6 (Math_min a b)"
    and "Math_max (round6 (Math_min a b)) (round6 (Math_max a b)) = round6 (Math_max a b)"
proof -
  have nn: "\<not> isNaN a" "\<not> isNaN b"
    using assms by (simp_all add: isFinite_not_NaN)
  have f: "isFinite (Math_min a b)" "isFinite (Math_max a b)"
    using assms by (simp_all add: isFinite_Math_min isFinite_Math_max)
  have b: "below (round6 (Math_min a b)) (round6 (Math_max a b))"
    using f Math_min_below_Math_max [OF nn] by (rule below_round6)
  have r: "\<not> isNaN (round6 (Math_min a b))" "\<not> isNaN (round6 (Math_max a b))"
    using f by (simp_all add: round6_not_NaN isFinite_not_NaN)
  show "Math_min (round6 (Math_min a b)) (round6 (Math_max a b)) = round6 (Math_min a b)"
    using b by (simp add: Math_min_below r)
  show "Math_max (round6 (Math_min a b)) (round6 (Math_max a b)) = round6 (Math_max a b)"
    using b by (simp add: Math_max_below r)
qed

text \<open>\<open>round6\<close> is rounding to six decimals: the result is the binary64 value of a whole
  number of millionths that is at most half a millionth away from a decimal that
  converts to the same binary64 value as the magnitude of the number.\<close>

lemma half_expand6_is_rounding:
  assumes "0 \<le> v"
  shows "half_expand6 v * 10 ^ 6 \<in> \<int> \<and> \<bar>half_expand6 v - v\<bar> \<le> 1 / 2 / 10 ^ 6"
proof -
  define k where "k = \<lfloor>v * 10 ^ 6 + 1 / 2\<rfloor>"
  have "0 \<le> k"
    using assms by (simp add: k_def)
  then have h: "half_expand6 v = of_int k / 10 ^ 6"
    by (simp add: half_expand6_def k_def)
  have near: "\<bar>(of_int k - v * 10 ^ 6) / 10 ^ 6\<bar> \<le> 1 / 2 / 10 ^ 6"
  proof -
    have "\<bar>of_int k - v * 10 ^ 6\<bar> \<le> 1 / 2"
      unfolding k_def by linarith
    then have "\<bar>of_int k - v * 10 ^ 6\<bar> / 10 ^ 6 \<le> 1 / 2 / 10 ^ 6"
      by (rule divide_right_mono) simp
    then show ?thesis
      by simp
  qed
  have e: "half_expand6 v - v = (of_int k - v * 10 ^ 6) / 10 ^ 6"
    by (simp add: h field_simps)
  have "\<bar>half_expand6 v - v\<bar> \<le> 1 / 2 / 10 ^ 6"
    unfolding e by (rule near)
  moreover have "half_expand6 v * 10 ^ 6 = of_int k"
    by (simp add: h)
  ultimately show ?thesis
    by (metis Ints_of_int)
qed

lemma round6_is_rounding:
  obtains v y where "0 \<le> v" and "binary64 v = binary64 \<bar>q\<bar>"
    and "y * 10 ^ 6 \<in> \<int>" and "\<bar>y - v\<bar> \<le> 1 / 2 / 10 ^ 6"
    and "round6 (Fin q) = (if q < 0 then negate (binary64 y) else binary64 y)"
proof -
  have v: "0 \<le> shortest_decimal \<bar>q\<bar>"
    by (rule shortest_decimal_nonneg) simp
  show ?thesis
  proof
    show "0 \<le> shortest_decimal \<bar>q\<bar>"
      by (rule v)
    show "binary64 (shortest_decimal \<bar>q\<bar>) = binary64 \<bar>q\<bar>"
      by (rule binary64_shortest_decimal)
    show "half_expand6 (shortest_decimal \<bar>q\<bar>) * 10 ^ 6 \<in> \<int>"
      using half_expand6_is_rounding [OF v] by simp
    show "\<bar>half_expand6 (shortest_decimal \<bar>q\<bar>) - shortest_decimal \<bar>q\<bar>\<bar> \<le> 1 / 2 / 10 ^ 6"
      using half_expand6_is_rounding [OF v] by simp
    show "round6 (Fin q) =
        (if q < 0 then negate (binary64 (half_expand6 (shortest_decimal \<bar>q\<bar>)))
         else binary64 (half_expand6 (shortest_decimal \<bar>q\<bar>)))"
      by (simp add: round6_def abs_if)
  qed
qed

text \<open>In numbers: for a binary64 value of magnitude up to 1024, and so for every longitude
  and latitude, the number read back differs from the number written by at most half a
  millionth and \<open>2^(-40)\<close>, the share of the two roundings to binary64.\<close>

lemma round6_close:
  assumes "is_binary64 q" and "\<bar>q\<bar> \<le> 1024"
  shows "isFinite (round6 (Fin q)) \<and> \<bar>mv (round6 (Fin q)) - q\<bar> \<le> 1 / 2 / 10 ^ 6 + 1 / 2 ^ 40"
proof -
  define a where "a = \<bar>q\<bar>"
  define v where "v = shortest_decimal a"
  define y where "y = half_expand6 v"
  have a: "0 \<le> a" "a \<le> 1024"
    using assms(2) by (simp_all add: a_def)
  have "binary64 v = Fin a"
    using assms(1) by (simp add: v_def a_def binary64_shortest_decimal is_binary64_def)
  then have rv: "round_magnitude v = a"
    by (simp add: binary64_Fin)
  have v0: "0 \<le> v"
    unfolding v_def using a(1) by (rule shortest_decimal_nonneg)
  have v11: "v < 2 powi 11"
  proof (rule ccontr)
    assume "\<not> v < 2 powi 11"
    then have "round_magnitude (2 powi 11) \<le> round_magnitude v"
      by (intro round_magnitude_mono) simp_all
    moreover have "round_magnitude (2 powi 11) = 2 powi 11"
      by (rule round_magnitude_power) simp
    ultimately have "(2::real) powi 11 \<le> a"
      by (simp only: rv)
    with a(2) show False
      by simp
  qed
  have v': "v < 2048"
    using v11 by simp
  have "\<bar>round_magnitude v - v\<bar> \<le> 2 powi (10 - 52) / 2"
    using v0 v11 by (intro round_magnitude_near_bounded) simp_all
  then have av: "\<bar>a - v\<bar> \<le> 1 / 2 ^ 43"
    by (simp add: rv power_int_minus_divide)
  have yv: "\<bar>y - v\<bar> \<le> 1 / 2 / 10 ^ 6"
    unfolding y_def using half_expand6_is_rounding [OF v0] by simp
  have y0: "0 \<le> y"
    by (simp add: y_def half_expand6_nonneg)
  have "y \<le> v + 1 / 2 / 10 ^ 6"
    using yv by linarith
  with v' have y': "y < 4096"
    by simp
  then have "y < 2 powi (11 + 1)"
    by simp
  then have "\<bar>round_magnitude y - y\<bar> \<le> 2 powi (11 - 52) / 2"
    using y0 by (intro round_magnitude_near_bounded) simp_all
  then have ry: "\<bar>round_magnitude y - y\<bar> \<le> 1 / 2 ^ 42"
    by (simp add: power_int_minus_divide)
  have "round_magnitude y \<le> y + 1 / 2 ^ 42"
    using ry by linarith
  with y' have "round_magnitude y < 4097"
    by simp
  then have small: "round_magnitude y < 2 ^ 1024"
    by (rule less_trans) simp
  then have b: "binary64 y = Fin (round_magnitude y)"
    by (simp add: binary64_def)
  have "\<bar>round_magnitude y - a\<bar> \<le> \<bar>round_magnitude y - y\<bar> + \<bar>y - v\<bar> + \<bar>a - v\<bar>"
    by linarith
  also have "\<dots> \<le> 1 / 2 ^ 42 + 1 / 2 / 10 ^ 6 + 1 / 2 ^ 43"
    using ry yv av by (intro add_mono)
  also have "\<dots> \<le> 1 / 2 / 10 ^ 6 + 1 / 2 ^ 40"
    by simp
  finally have close: "\<bar>round_magnitude y - a\<bar> \<le> 1 / 2 / 10 ^ 6 + 1 / 2 ^ 40" .
  show ?thesis
  proof (cases "q < 0")
    case True
    then have qa: "- q = a"
      by (simp add: a_def)
    have "round6 (Fin q) = negate (binary64 (half_expand6 (shortest_decimal (- q))))"
      using True by (simp add: round6_def)
    also have "\<dots> = negate (Fin (round_magnitude y))"
      unfolding qa v_def [symmetric] y_def [symmetric] b ..
    finally have r: "round6 (Fin q) = negate (Fin (round_magnitude y))" .
    have m: "mv (round6 (Fin q)) = - round_magnitude y"
      by (simp add: r)
    have "\<bar>mv (round6 (Fin q)) - q\<bar> = \<bar>round_magnitude y - a\<bar>"
      unfolding m using qa by linarith
    moreover have "isFinite (round6 (Fin q))"
      by (simp add: r isFinite_def)
    ultimately show ?thesis
      using close by (simp only: simp_thms)
  next
    case False
    then have qa: "q = a"
      by (simp add: a_def)
    have "round6 (Fin q) = binary64 (half_expand6 (shortest_decimal q))"
      using False by (simp add: round6_def)
    also have "\<dots> = Fin (round_magnitude y)"
      unfolding qa v_def [symmetric] y_def [symmetric] b ..
    finally have r: "round6 (Fin q) = Fin (round_magnitude y)" .
    have m: "mv (round6 (Fin q)) = round_magnitude y"
      by (simp add: r)
    have "\<bar>mv (round6 (Fin q)) - q\<bar> = \<bar>round_magnitude y - a\<bar>"
      unfolding m using qa by linarith
    moreover have "isFinite (round6 (Fin q))"
      by (simp add: r isFinite_def)
    ultimately show ?thesis
      using close by (simp only: simp_thms)
  qed
qed

lemma displayed_ordered:
  assumes "isFinite a" and "isFinite b"
  shows "js_le (Number (formatCoordinate (Math_min a b))) (Number (formatCoordinate (Math_max a b)))"
proof -
  have nn: "\<not> isNaN a" "\<not> isNaN b"
    using assms by (simp_all add: isFinite_not_NaN)
  have f: "isFinite (Math_min a b)" "isFinite (Math_max a b)"
    using assms by (simp_all add: isFinite_Math_min isFinite_Math_max)
  have "below (round6 (Math_min a b)) (round6 (Math_max a b))"
    using f Math_min_below_Math_max [OF nn] by (rule below_round6)
  moreover have "\<not> isNaN (round6 (Math_min a b))" "\<not> isNaN (round6 (Math_max a b))"
    using f by (simp_all add: round6_not_NaN isFinite_not_NaN)
  ultimately have "js_le (round6 (Math_min a b)) (round6 (Math_max a b))"
    by (intro below_js_le)
  then show ?thesis
    by (simp add: Number_formatCoordinate f)
qed


section \<open>Splitting and joining\<close>

lemma split_at_single: "sep \<notin> set a \<Longrightarrow> split_at sep a = [a]"
  by (induction a) auto

lemma split_at_component: "sep \<notin> set a \<Longrightarrow> split_at sep (a @ sep # r) = a # split_at sep r"
  by (induction a) auto

lemma split_at_join4:
  assumes "CHR '','' \<notin> set a" and "CHR '','' \<notin> set b" and "CHR '','' \<notin> set c" and "CHR '','' \<notin> set d"
  shows "split_at CHR '','' (join '','' [a, b, c, d]) = [a, b, c, d]"
proof -
  have 4: "split_at CHR '','' d = [d]"
    using assms(4) by (rule split_at_single)
  have 3: "split_at CHR '','' (c @ CHR '','' # d) = [c, d]"
    using split_at_component [OF assms(3), of d] 4 by simp
  have 2: "split_at CHR '','' (b @ CHR '','' # c @ CHR '','' # d) = [b, c, d]"
    using split_at_component [OF assms(2), of "c @ CHR '','' # d"] 3 by simp
  have 1: "split_at CHR '','' (a @ CHR '','' # b @ CHR '','' # c @ CHR '','' # d) = [a, b, c, d]"
    using split_at_component [OF assms(1), of "b @ CHR '','' # c @ CHR '','' # d"] 2 by simp
  then show ?thesis
    by simp
qed


section \<open>Writing the URL\<close>

lemma formatBoundingBox_null [simp]: "formatBoundingBox None None opts = []"
  by (simp add: formatBoundingBox_def Let_def)

lemma formatBoundingBox_default:
  "formatBoundingBox (Some (lon1, lat1)) (Some (lon2, lat2)) no_options =
     join '','' [formatCoordinate (Math_min lon1 lon2), formatCoordinate (Math_min lat1 lat2),
                 formatCoordinate (Math_max lon1 lon2), formatCoordinate (Math_max lat1 lat2)]"
  by (simp add: formatBoundingBox_def no_options_def Let_def)

text \<open>\<^verbatim>\<open>updateURL\<close> touches the history and the location only; the URL it pushes is the
  current path and query, \<^verbatim>\<open>#\<close>, and the formatted box.\<close>

lemma updateURL_fields [simp]:
  "activeTool (updateURL a b s) = activeTool s"
  "boundingBox (updateURL a b s) = boundingBox s"
  "isDrawing (updateURL a b s) = isDrawing s"
  "fitToBoundsNextRender (updateURL a b s) = fitToBoundsNextRender s"
  "mapStyle (updateURL a b s) = mapStyle s"
  "mapRef (updateURL a b s) = mapRef s"
  "location_pathname (updateURL a b s) = location_pathname s"
  "location_search (updateURL a b s) = location_search s"
  "history (updateURL a b s) =
     history s @ [location_pathname s @ location_search s @ ''#'' @ formatBoundingBox a b no_options]"
  by (simp_all add: updateURL_def pushState_def Let_def)

text \<open>Where the part of the URL before the \<^verbatim>\<open>#\<close> holds no \<^verbatim>\<open>#\<close> of its own, the fragment of
  the new location is what follows it.\<close>

lemma pushState_location_hash:
  assumes "CHR ''#'' \<notin> set pre"
  shows "location_hash (pushState (pre @ ''#'' @ f) s) =
    (let fragment = fragment_encode (filter (\<lambda>c. c \<notin> set [CHR 0x09, CHR 0x0A, CHR 0x0D]) f)
     in if fragment = [] then [] else ''#'' @ fragment)"
proof -
  let ?keep = "\<lambda>c. c \<notin> set [CHR 0x09, CHR 0x0A, CHR 0x0D]"
  have "\<And>x. x \<in> set (filter ?keep pre) \<Longrightarrow> x \<noteq> CHR ''#''"
    using assms by auto
  then have "dropWhile (\<lambda>c. c \<noteq> CHR ''#'') (filter ?keep pre @ CHR ''#'' # filter ?keep f) =
      dropWhile (\<lambda>c. c \<noteq> CHR ''#'') (CHR ''#'' # filter ?keep f)"
    by (rule dropWhile_append2)
  then have fragment:
    "drop 1 (dropWhile (\<lambda>c. c \<noteq> CHR ''#'') (filter ?keep (pre @ ''#'' @ f))) = filter ?keep f"
    by simp
  show ?thesis
    unfolding pushState_def Let_def fragment by simp
qed

text \<open>The characters of a formatted box with finite coordinates are digits, points, minus
  signs and commas; the URL parser keeps them as they are, so the fragment of the new
  location is the formatted box.\<close>

lemma url_char_kept:
  assumes "is_digit c \<or> c = CHR ''.'' \<or> c = CHR ''-'' \<or> c = CHR '',''"
  shows "\<not> in_fragment_percent_encode_set c" and "c \<notin> set [CHR 0x09, CHR 0x0A, CHR 0x0D]"
  using assms by (auto simp add: is_digit_iff in_fragment_percent_encode_set_def)

lemma fragment_encode_kept:
  assumes "list_all (\<lambda>c. is_digit c \<or> c = CHR ''.'' \<or> c = CHR ''-'' \<or> c = CHR '','') f"
  shows "fragment_encode (filter (\<lambda>c. c \<notin> set [CHR 0x09, CHR 0x0A, CHR 0x0D]) f) = f"
  using assms
proof (induction f)
  case Nil
  show ?case by (simp add: fragment_encode_def)
next
  case (Cons c f)
  then have c: "is_digit c \<or> c = CHR ''.'' \<or> c = CHR ''-'' \<or> c = CHR '',''"
    and f: "fragment_encode (filter (\<lambda>c. c \<notin> set [CHR 0x09, CHR 0x0A, CHR 0x0D]) f) = f"
    by simp_all
  have "filter (\<lambda>c. c \<notin> set [CHR 0x09, CHR 0x0A, CHR 0x0D]) (c # f) =
      c # filter (\<lambda>c. c \<notin> set [CHR 0x09, CHR 0x0A, CHR 0x0D]) f"
    using url_char_kept(2) [OF c] by simp
  moreover have "fragment_encode (c # g) = c # fragment_encode g" for g
    using url_char_kept(1) [OF c] by (simp add: fragment_encode_def)
  ultimately show ?case
    using f by simp
qed

lemma canonical_chars:
  assumes "isFinite a" and "isFinite b" and "isFinite c" and "isFinite d"
  shows "list_all (\<lambda>c. is_digit c \<or> c = CHR ''.'' \<or> c = CHR ''-'' \<or> c = CHR '','')
    (join '','' [formatCoordinate a, formatCoordinate b, formatCoordinate c, formatCoordinate d])"
  using formatCoordinate_chars [OF assms(1)] formatCoordinate_chars [OF assms(2)]
    formatCoordinate_chars [OF assms(3)] formatCoordinate_chars [OF assms(4)]
  by (auto simp add: list_all_iff)

lemma updateURL_location_hash:
  assumes "CHR ''#'' \<notin> set (location_pathname s @ location_search s)"
    and "isFinite lon1" and "isFinite lat1" and "isFinite lon2" and "isFinite lat2"
  shows "location_hash (updateURL (Some (lon1, lat1)) (Some (lon2, lat2)) s) =
    ''#'' @ formatBoundingBox (Some (lon1, lat1)) (Some (lon2, lat2)) no_options"
proof -
  let ?f = "formatBoundingBox (Some (lon1, lat1)) (Some (lon2, lat2)) no_options"
  have fin: "isFinite (Math_min lon1 lon2)" "isFinite (Math_min lat1 lat2)"
    "isFinite (Math_max lon1 lon2)" "isFinite (Math_max lat1 lat2)"
    using assms(2-5) by (simp_all add: isFinite_Math_min isFinite_Math_max)
  have "fragment_encode (filter (\<lambda>c. c \<notin> set [CHR 0x09, CHR 0x0A, CHR 0x0D]) ?f) = ?f"
    unfolding formatBoundingBox_default by (intro fragment_encode_kept canonical_chars fin)
  moreover have "?f \<noteq> []"
    using formatCoordinate_nonempty [of "Math_min lon1 lon2"]
    by (simp add: formatBoundingBox_default)
  ultimately show ?thesis
    using pushState_location_hash [OF assms(1), of ?f s]
    by (simp add: updateURL_def Let_def)
qed


section \<open>Reading a fragment\<close>

text \<open>A fragment whose first four components convert to numbers other than \<^verbatim>\<open>NaN\<close> is
  accepted, whatever follows the fourth component.\<close>

lemma handleHashChange_accepts:
  assumes "split_at CHR '','' (drop 1 (location_hash s)) = c1 # c2 # c3 # c4 # rest"
    and "\<not> isNaN (Number c1)" and "\<not> isNaN (Number c2)"
    and "\<not> isNaN (Number c3)" and "\<not> isNaN (Number c4)"
  shows "handleHashChange s =
     s\<lparr>boundingBox := \<lparr>start = Some (Number c1, Number c2), end' = Some (Number c3, Number c4)\<rparr>,
       fitToBoundsNextRender := True\<rparr>"
proof -
  have "drop 1 (location_hash s) \<noteq> []"
    using assms(1) by (cases "drop 1 (location_hash s)") auto
  then show ?thesis
    using assms by (simp add: handleHashChange_def Let_def element_def ToNumber_def)
qed

lemma handleHashChange_formatted:
  assumes "isFinite lon1" and "isFinite lat1" and "isFinite lon2" and "isFinite lat2"
    and "location_hash s = ''#'' @ formatBoundingBox (Some (lon1, lat1)) (Some (lon2, lat2)) no_options"
  shows "handleHashChange s =
      s\<lparr>boundingBox := \<lparr>start = Some (round6 (Math_min lon1 lon2), round6 (Math_min lat1 lat2)),
                         end' = Some (round6 (Math_max lon1 lon2), round6 (Math_max lat1 lat2))\<rparr>,
        fitToBoundsNextRender := True\<rparr>"
proof -
  let ?a = "Math_min lon1 lon2" and ?b = "Math_min lat1 lat2"
  let ?c = "Math_max lon1 lon2" and ?d = "Math_max lat1 lat2"
  have fin: "isFinite ?a" "isFinite ?b" "isFinite ?c" "isFinite ?d"
    using assms(1-4) by (simp_all add: isFinite_Math_min isFinite_Math_max)
  have "drop 1 (location_hash s) =
      join '','' [formatCoordinate ?a, formatCoordinate ?b, formatCoordinate ?c, formatCoordinate ?d]"
    by (simp add: assms(5) formatBoundingBox_default)
  then have sp: "split_at CHR '','' (drop 1 (location_hash s)) =
      [formatCoordinate ?a, formatCoordinate ?b, formatCoordinate ?c, formatCoordinate ?d]"
    using split_at_join4 [OF formatCoordinate_no_comma [OF fin(1)] formatCoordinate_no_comma [OF fin(2)]
        formatCoordinate_no_comma [OF fin(3)] formatCoordinate_no_comma [OF fin(4)]]
    by simp
  have num: "Number (formatCoordinate ?a) = round6 ?a" "Number (formatCoordinate ?b) = round6 ?b"
    "Number (formatCoordinate ?c) = round6 ?c" "Number (formatCoordinate ?d) = round6 ?d"
    using fin by (simp_all add: Number_formatCoordinate)
  have "\<not> isNaN (round6 ?a)" "\<not> isNaN (round6 ?b)" "\<not> isNaN (round6 ?c)" "\<not> isNaN (round6 ?d)"
    using fin by (simp_all add: round6_not_NaN isFinite_not_NaN)
  then show ?thesis
    using handleHashChange_accepts [OF sp] by (simp only: num) simp
qed

text \<open>A completed drag between finite points, then a load of the page at the new
  location: the box read from the fragment is the southwest and northeast corner of the
  box that was drawn, rounded to six decimals.\<close>

lemma drag_then_load:
  assumes "activeTool s = rectangle" and "isDrawing s" and "start (boundingBox s) = Some (lon1, lat1)"
    and "\<not> (strict_eq lon1 lon2 \<and> strict_eq lat1 lat2)"
    and "CHR ''#'' \<notin> set (location_pathname s @ location_search s)"
    and "isFinite lon1" and "isFinite lat1" and "isFinite lon2" and "isFinite lat2"
  shows "boundingBox (handleHashChange
           (initial_state (location_pathname s) (location_search s)
              (location_hash (handleMouseUp (lon2, lat2) s)))) =
         \<lparr>start = Some (round6 (Math_min lon1 lon2), round6 (Math_min lat1 lat2)),
          end' = Some (round6 (Math_max lon1 lon2), round6 (Math_max lat1 lat2))\<rparr>"
proof -
  have "location_hash (handleMouseUp (lon2, lat2) s) =
      ''#'' @ formatBoundingBox (Some (lon1, lat1)) (Some (lon2, lat2)) no_options"
    using assms(1-4) updateURL_location_hash [OF _ assms(6-9), of
        "s\<lparr>boundingBox := \<lparr>start = Some (lon1, lat1), end' = Some (lon2, lat2)\<rparr>,
           isDrawing := False, activeTool := hand\<rparr>"] assms(5)
    by (auto simp add: handleMouseUp_def Let_def)
  then have "location_hash (initial_state (location_pathname s) (location_search s)
      (location_hash (handleMouseUp (lon2, lat2) s))) =
      ''#'' @ formatBoundingBox (Some (lon1, lat1)) (Some (lon2, lat2)) no_options"
    by (simp add: initial_state_def)
  from handleHashChange_formatted [OF assms(6-9) this] show ?thesis
    by simp
qed


section \<open>The corners of the box are numbers\<close>

text \<open>No handler puts \<^verbatim>\<open>NaN\<close> into the box: from the state at mount, under events whose
  points are coordinates, the corners of the box are coordinates.\<close>

lemma renderBoundingBox_boundingBox [simp]: "boundingBox (renderBoundingBox box s) = boundingBox s"
  by (simp add: renderBoundingBox_def Let_def split: option.splits prod.splits)

lemma handleHashChange_box_coordinates:
  assumes "box_coordinates (boundingBox s)"
  shows "box_coordinates (boundingBox (handleHashChange s))"
  using assms by (simp add: handleHashChange_def Let_def box_coordinates_def coordinate_def)

lemma handle_box_coordinates:
  assumes "valid_event e" and "box_coordinates (boundingBox s)"
  shows "box_coordinates (boundingBox (handle e s))"
proof (cases e)
  case (HashChange h)
  have "box_coordinates (boundingBox (s\<lparr>location_hash := h\<rparr>))"
    using assms(2) by simp
  then show ?thesis
    unfolding HashChange handle.simps by (rule handleHashChange_box_coordinates)
next
  case (MouseUp p)
  with assms show ?thesis
    by (auto simp add: handleMouseUp_def Let_def box_coordinates_def coordinate_def
        split: option.splits)
qed (use assms in \<open>auto simp add: handleMouseDown_def handleMouseMove_def handleKeyDown_def
      fitToBoundsIfRequested_def Let_def box_coordinates_def coordinate_def split: option.splits\<close>)

lemma step_box_coordinates:
  assumes "valid_event e" and "box_coordinates (boundingBox s)"
  shows "box_coordinates (boundingBox (step e s))"
proof -
  have "boundingBox (step e s) = boundingBox (handle e s)"
    by (simp add: step_def Let_def)
  then show ?thesis
    using handle_box_coordinates [OF assms] by simp
qed

lemma run_box_coordinates:
  assumes "list_all valid_event es" and "box_coordinates (boundingBox s)"
  shows "box_coordinates (boundingBox (run es s))"
  using assms by (induction es arbitrary: s) (simp_all add: step_box_coordinates)

lemma initial_box_coordinates: "box_coordinates (boundingBox (initial_state pathname search hash))"
  by (simp add: initial_state_def box_coordinates_def)


section \<open>The normalized string\<close>

text \<open>
  The properties of the specification follow, each stated over the definitions above and,
  where the statement has a hypothesis, followed by its instance at a concrete input.
\<close>

text \<open>
  Claim C1. For every two corner points (pairs of numbers, none of them \<^verbatim>\<open>NaN\<close>), in either
  drag order, \<^verbatim>\<open>formatBoundingBox\<close> in the default order emits \<^verbatim>\<open>minLon,minLat,maxLon,maxLat\<close>,
  where \<open>minLon\<close> is the smaller and \<open>maxLon\<close> the larger of the two longitudes, and likewise
  for the latitudes; so \<open>minLon \<le> maxLon\<close> and \<open>minLat \<le> maxLat\<close>, for the coordinates that
  are formatted and, where they are finite, also for the numbers read back from the
  emitted string.
\<close>

theorem formatBoundingBox_normalized:
  assumes "coordinate (lon1, lat1)" and "coordinate (lon2, lat2)"
  shows "formatBoundingBox (Some (lon1, lat1)) (Some (lon2, lat2)) no_options =
           join '','' [formatCoordinate (Math_min lon1 lon2), formatCoordinate (Math_min lat1 lat2),
                       formatCoordinate (Math_max lon1 lon2), formatCoordinate (Math_max lat1 lat2)] \<and>
         formatBoundingBox (Some (lon2, lat2)) (Some (lon1, lat1)) no_options =
           formatBoundingBox (Some (lon1, lat1)) (Some (lon2, lat2)) no_options \<and>
         (Math_min lon1 lon2 = lon1 \<or> Math_min lon1 lon2 = lon2) \<and>
         js_le (Math_min lon1 lon2) lon1 \<and> js_le (Math_min lon1 lon2) lon2 \<and>
         (Math_max lon1 lon2 = lon1 \<or> Math_max lon1 lon2 = lon2) \<and>
         js_le lon1 (Math_max lon1 lon2) \<and> js_le lon2 (Math_max lon1 lon2) \<and>
         (Math_min lat1 lat2 = lat1 \<or> Math_min lat1 lat2 = lat2) \<and>
         js_le (Math_min lat1 lat2) lat1 \<and> js_le (Math_min lat1 lat2) lat2 \<and>
         (Math_max lat1 lat2 = lat1 \<or> Math_max lat1 lat2 = lat2) \<and>
         js_le lat1 (Math_max lat1 lat2) \<and> js_le lat2 (Math_max lat1 lat2) \<and>
         js_le (Math_min lon1 lon2) (Math_max lon1 lon2) \<and>
         js_le (Math_min lat1 lat2) (Math_max lat1 lat2) \<and>
         (isFinite lon1 \<and> isFinite lon2 \<longrightarrow>
            js_le (Number (formatCoordinate (Math_min lon1 lon2)))
                  (Number (formatCoordinate (Math_max lon1 lon2)))) \<and>
         (isFinite lat1 \<and> isFinite lat2 \<longrightarrow>
            js_le (Number (formatCoordinate (Math_min lat1 lat2)))
                  (Number (formatCoordinate (Math_max lat1 lat2))))"
proof -
  have nn: "\<not> isNaN lon1" "\<not> isNaN lat1" "\<not> isNaN lon2" "\<not> isNaN lat2"
    using assms by (simp_all add: coordinate_def)
  have swap: "formatBoundingBox (Some (lon2, lat2)) (Some (lon1, lat1)) no_options =
      formatBoundingBox (Some (lon1, lat1)) (Some (lon2, lat2)) no_options"
    unfolding formatBoundingBox_default
    by (simp only: Math_min_commute [of lon2 lon1] Math_min_commute [of lat2 lat1]
        Math_max_commute [of lon2 lon1] Math_max_commute [of lat2 lat1])
  show ?thesis
    using swap formatBoundingBox_default [of lon1 lat1 lon2 lat2]
      Math_min_is_min [OF nn(1) nn(3)] Math_max_is_max [OF nn(1) nn(3)]
      Math_min_is_min [OF nn(2) nn(4)] Math_max_is_max [OF nn(2) nn(4)]
      Math_min_le_Math_max [OF nn(1) nn(3)] Math_min_le_Math_max [OF nn(2) nn(4)]
      displayed_ordered [of lon1 lon2] displayed_ordered [of lat1 lat2]
    by blast
qed

theorem formatBoundingBox_normalized_witness:
  "coordinate (Fin 151, Fin (- 33)) \<and> coordinate (Fin 150, Fin (- 34)) \<and>
   formatBoundingBox (Some (Fin 151, Fin (- 33))) (Some (Fin 150, Fin (- 34))) no_options = ''150,-34,151,-33'' \<and>
   formatBoundingBox (Some (Fin 150, Fin (- 34))) (Some (Fin 151, Fin (- 33))) no_options = ''150,-34,151,-33'' \<and>
   js_le (Fin 150) (Fin 151) \<and> js_le (Fin (- 34)) (Fin (- 33))"
proof -
  have nn: "coordinate (Fin 151, Fin (- 33))" "coordinate (Fin 150, Fin (- 34))"
    by (simp_all add: coordinate_def isNaN_def)
  have m: "Math_min (Fin 151) (Fin 150) = Fin 150" "Math_min (Fin (- 33)) (Fin (- 34)) = Fin (- 34)"
    "Math_max (Fin 151) (Fin 150) = Fin 151" "Math_max (Fin (- 33)) (Fin (- 34)) = Fin (- 33)"
    by (simp_all add: Math_min_def Math_max_def js_lt_def)
  have c: "formatCoordinate (Fin 150) = ''150''" "formatCoordinate (Fin (- 34)) = ''-34''"
    "formatCoordinate (Fin 151) = ''151''" "formatCoordinate (Fin (- 33)) = ''-33''"
    by (simp_all add: number_eval)
  note t = formatBoundingBox_normalized [OF nn]
  from t have 1: "formatBoundingBox (Some (Fin 151, Fin (- 33))) (Some (Fin 150, Fin (- 34))) no_options =
      ''150,-34,151,-33''"
    unfolding m c by simp
  from t have 2: "formatBoundingBox (Some (Fin 150, Fin (- 34))) (Some (Fin 151, Fin (- 33))) no_options =
      formatBoundingBox (Some (Fin 151, Fin (- 33))) (Some (Fin 150, Fin (- 34))) no_options"
    by blast
  from t have 3: "js_le (Fin 150) (Fin 151) \<and> js_le (Fin (- 34)) (Fin (- 33))"
    unfolding m by blast
  from nn 1 2 3 show ?thesis
    by simp
qed


section \<open>The round trip through the URL fragment\<close>

text \<open>
  Claim C2, as amended. For every box with both corners set and all four coordinates
  finite, formatting it with \<^verbatim>\<open>formatBoundingBox\<close> and reading the string back as a URL
  fragment gives the box whose start is the southwest corner and whose end is the
  northeast corner of the original box, each coordinate rounded to six decimals; its
  normalized form is the normalized form of the original box, rounded to six decimals.
  Rounding to six decimals is \<open>round6\<close>: the result is the binary64 value of a whole number
  of millionths at most half a millionth away from the decimal that stands for the
  coordinate (\<open>round6_is_rounding\<close>), and for a binary64 coordinate of magnitude up to 1024
  it differs from the coordinate by at most half a millionth and \<open>2^(-40)\<close> (\<open>round6_close\<close>).
  The longitude \<open>151.1234567\<close> (the binary64 value nearest to it) comes back as
  \<open>151.123457\<close> (the binary64 value nearest to that).
\<close>

theorem format_parse_round_trip:
  assumes "start box = Some (lon1, lat1)" and "end' box = Some (lon2, lat2)"
    and "isFinite lon1" and "isFinite lat1" and "isFinite lon2" and "isFinite lat2"
    and "location_hash s = ''#'' @ formatBoundingBox (start box) (end' box) no_options"
  shows "boundingBox (handleHashChange s) =
           \<lparr>start = Some (round6 (Math_min lon1 lon2), round6 (Math_min lat1 lat2)),
            end' = Some (round6 (Math_max lon1 lon2), round6 (Math_max lat1 lat2))\<rparr> \<and>
         southwest_northeast (boundingBox (handleHashChange s)) =
           map_option round6_corners (southwest_northeast box)"
proof -
  have "handleHashChange s =
      s\<lparr>boundingBox := \<lparr>start = Some (round6 (Math_min lon1 lon2), round6 (Math_min lat1 lat2)),
                         end' = Some (round6 (Math_max lon1 lon2), round6 (Math_max lat1 lat2))\<rparr>,
        fitToBoundsNextRender := True\<rparr>"
    using assms(3-7) unfolding assms(1,2) by (rule handleHashChange_formatted)
  then show ?thesis
    using assms(1,2) Math_min_max_round6 [OF assms(3) assms(5)] Math_min_max_round6 [OF assms(4) assms(6)]
    by (simp add: southwest_northeast_def round6_corners_def)
qed

theorem format_parse_round_trip_witness:
  "binary64 (1511234567 / 10000000) = Fin (5317183931883291 / 35184372088832) \<and>
   binary64 (151123457 / 1000000) = Fin (5317183942438603 / 35184372088832) \<and>
   isFinite (Fin (5317183931883291 / 35184372088832)) \<and> isFinite (Fin (- 33)) \<and>
   isFinite (Fin 150) \<and> isFinite (Fin (- 34)) \<and>
   formatBoundingBox (Some (Fin (5317183931883291 / 35184372088832), Fin (- 33))) (Some (Fin 150, Fin (- 34)))
     no_options = ''150,-34,151.123457,-33'' \<and>
   boundingBox (handleHashChange (initial_state ''/'' '''' ''#150,-34,151.123457,-33'')) =
     \<lparr>start = Some (Fin 150, Fin (- 34)),
      end' = Some (Fin (5317183942438603 / 35184372088832), Fin (- 33))\<rparr> \<and>
   southwest_northeast (boundingBox (handleHashChange (initial_state ''/'' '''' ''#150,-34,151.123457,-33''))) =
     Some ((Fin 150, Fin (- 34)), (Fin (5317183942438603 / 35184372088832), Fin (- 33)))"
proof -
  let ?lon = "Fin (5317183931883291 / 35184372088832)"
  let ?box = "\<lparr>start = Some (?lon, Fin (- 33)), end' = Some (Fin 150, Fin (- 34))\<rparr>"
  let ?s = "initial_state ''/'' '''' ''#150,-34,151.123457,-33''"
  have d: "binary64 (1511234567 / 10000000) = Fin (5317183931883291 / 35184372088832)"
    "binary64 (151123457 / 1000000) = Fin (5317183942438603 / 35184372088832)"
    by (simp_all add: number_eval)
  have fin: "isFinite ?lon" "isFinite (Fin (- 33))" "isFinite (Fin 150)" "isFinite (Fin (- 34))"
    by (simp_all add: isFinite_def)
  have m: "Math_min ?lon (Fin 150) = Fin 150"
    "Math_min (Fin (- 33)) (Fin (- 34)) = Fin (- 34)"
    "Math_max ?lon (Fin 150) = ?lon"
    "Math_max (Fin (- 33)) (Fin (- 34)) = Fin (- 33)"
    by (simp_all add: Math_min_def Math_max_def js_lt_def)
  have c: "formatCoordinate (Fin 150) = ''150''" "formatCoordinate (Fin (- 34)) = ''-34''"
    "formatCoordinate ?lon = ''151.123457''" "formatCoordinate (Fin (- 33)) = ''-33''"
    by (simp_all add: number_eval)
  have f: "formatBoundingBox (Some (?lon, Fin (- 33))) (Some (Fin 150, Fin (- 34))) no_options =
      ''150,-34,151.123457,-33''"
    unfolding formatBoundingBox_default m c by simp
  then have h: "location_hash ?s = ''#'' @ formatBoundingBox (start ?box) (end' ?box) no_options"
    by (simp add: initial_state_def)
  have r: "round6 (Fin 150) = Fin 150" "round6 (Fin (- 34)) = Fin (- 34)"
    "round6 ?lon = Fin (5317183942438603 / 35184372088832)" "round6 (Fin (- 33)) = Fin (- 33)"
    by (simp_all add: round6_def half_expand6_def number_eval)
  have sw: "southwest_northeast ?box = Some ((Fin 150, Fin (- 34)), (?lon, Fin (- 33)))"
    by (simp add: southwest_northeast_def m)
  have b: "start ?box = Some (?lon, Fin (- 33))" "end' ?box = Some (Fin 150, Fin (- 34))"
    by simp_all
  note t = format_parse_round_trip [OF b fin h]
  from t have 1: "boundingBox (handleHashChange ?s) =
      \<lparr>start = Some (Fin 150, Fin (- 34)),
       end' = Some (Fin (5317183942438603 / 35184372088832), Fin (- 33))\<rparr>"
    unfolding m r by (rule conjunct1)
  from t have "southwest_northeast (boundingBox (handleHashChange ?s)) =
      map_option round6_corners (southwest_northeast ?box)"
    by (rule conjunct2)
  then have 2: "southwest_northeast (boundingBox (handleHashChange ?s)) =
      Some ((Fin 150, Fin (- 34)), (Fin (5317183942438603 / 35184372088832), Fin (- 33)))"
    unfolding sw by (simp add: round6_corners_def r)
  from d fin f 1 2 show ?thesis
    by simp
qed

text \<open>
  As stated, for every box with both corners set, the claim fails: the fragment
  \<^verbatim>\<open>#Infinity,0,1,2\<close> is accepted (\<^verbatim>\<open>Infinity\<close> is not \<^verbatim>\<open>NaN\<close>) and gives a box with an
  infinite longitude; \<^verbatim>\<open>Intl.NumberFormat\<close> writes that coordinate as the infinity
  sign, which \<^verbatim>\<open>Number\<close> does not read; so the fragment written for this box is malformed,
  and reading it back leaves the state as it was, here without a box.
\<close>

theorem format_parse_infinity_counterexample:
  "boundingBox (handleHashChange (initial_state ''/'' '''' ''#Infinity,0,1,2'')) =
     \<lparr>start = Some (PosInf, Fin 0), end' = Some (Fin 1, Fin 2)\<rparr> \<and>
   formatBoundingBox (Some (PosInf, Fin 0)) (Some (Fin 1, Fin 2)) no_options =
     ''1,0,'' @ infinity_sign @ '',2'' \<and>
   Number infinity_sign = NaN \<and>
   handleHashChange (initial_state ''/'' ''''
       (''#'' @ formatBoundingBox (Some (PosInf, Fin 0)) (Some (Fin 1, Fin 2)) no_options)) =
     initial_state ''/'' ''''
       (''#'' @ formatBoundingBox (Some (PosInf, Fin 0)) (Some (Fin 1, Fin 2)) no_options) \<and>
   southwest_northeast (boundingBox (handleHashChange (initial_state ''/'' ''''
       (''#'' @ formatBoundingBox (Some (PosInf, Fin 0)) (Some (Fin 1, Fin 2)) no_options)))) = None \<and>
   southwest_northeast \<lparr>start = Some (PosInf, Fin 0), end' = Some (Fin 1, Fin 2)\<rparr> =
     Some ((Fin 1, Fin 0), (PosInf, Fin 2))"
proof -
  have n: "Number ''Infinity'' = PosInf" "Number ''0'' = Fin 0" "Number ''1'' = Fin 1" "Number ''2'' = Fin 2"
    "Number infinity_sign = NaN"
    by (simp_all add: number_eval)
  have sp: "split_at CHR '','' (drop 1 (location_hash (initial_state ''/'' '''' ''#Infinity,0,1,2''))) =
      [''Infinity'', ''0'', ''1'', ''2'']"
    by (simp add: initial_state_def)
  have parsed: "boundingBox (handleHashChange (initial_state ''/'' '''' ''#Infinity,0,1,2'')) =
      \<lparr>start = Some (PosInf, Fin 0), end' = Some (Fin 1, Fin 2)\<rparr>"
    using handleHashChange_accepts [OF sp] by (simp add: n isNaN_def)
  have m: "Math_min PosInf (Fin 1) = Fin 1" "Math_min (Fin 0) (Fin 2) = Fin 0"
    "Math_max PosInf (Fin 1) = PosInf" "Math_max (Fin 0) (Fin 2) = Fin 2"
    by (simp_all add: Math_min_def Math_max_def js_lt_def)
  have c: "formatCoordinate (Fin 1) = ''1''" "formatCoordinate (Fin 0) = ''0''"
    "formatCoordinate (Fin 2) = ''2''"
    by (simp_all add: number_eval)
  have f: "formatBoundingBox (Some (PosInf, Fin 0)) (Some (Fin 1, Fin 2)) no_options =
      ''1,0,'' @ infinity_sign @ '',2''"
    unfolding formatBoundingBox_default m c by simp
  let ?s = "initial_state ''/'' '''' (''#'' @ ''1,0,'' @ infinity_sign @ '',2'')"
  have "split_at CHR '','' (drop 1 (location_hash ?s)) = [''1'', ''0'', infinity_sign, ''2'']"
    by (simp add: initial_state_def infinity_sign_def)
  then have "handleHashChange ?s = ?s"
    using n(5) by (simp add: handleHashChange_def Let_def element_def ToNumber_def isNaN_def)
  then have same: "handleHashChange (initial_state ''/'' ''''
       (''#'' @ formatBoundingBox (Some (PosInf, Fin 0)) (Some (Fin 1, Fin 2)) no_options)) =
     initial_state ''/'' ''''
       (''#'' @ formatBoundingBox (Some (PosInf, Fin 0)) (Some (Fin 1, Fin 2)) no_options)"
    unfolding f .
  have none: "southwest_northeast (boundingBox (initial_state ''/'' '''' h)) = None" for h
    by (simp add: southwest_northeast_def initial_state_def)
  have sw: "southwest_northeast \<lparr>start = Some (PosInf, Fin 0), end' = Some (Fin 1, Fin 2)\<rparr> =
     Some ((Fin 1, Fin 0), (PosInf, Fin 2))"
    by (simp add: southwest_northeast_def m)
  show ?thesis
    unfolding same none using parsed f n(5) same sw by simp
qed


section \<open>Fragments\<close>

text \<open>
  Claim C3. For a fragment that is absent (empty), has fewer than four comma-separated
  components, or has one among the first four that does not convert to a number
  (\<^verbatim>\<open>Number\<close> gives \<^verbatim>\<open>NaN\<close>), the handler returns the state as it was: in particular the box
  is unchanged and the fit-to-bounds flag is not set. The fragment \<^verbatim>\<open>abc,1,2,3\<close> is such a
  fragment.
\<close>

theorem handleHashChange_malformed:
  assumes "drop 1 (location_hash s) = [] \<or>
           length (split_at CHR '','' (drop 1 (location_hash s))) < 4 \<or>
           (\<exists>i<4. isNaN (Number (split_at CHR '','' (drop 1 (location_hash s)) ! i)))"
  shows "handleHashChange s = s"
proof (cases "drop 1 (location_hash s) = []")
  case True
  then show ?thesis by (simp add: handleHashChange_def)
next
  case False
  let ?comps = "split_at CHR '','' (drop 1 (location_hash s))"
  let ?nums = "map Number ?comps"
  have "\<exists>i<4. isNaN (ToNumber (element ?nums i))"
  proof (cases "length ?comps < 4")
    case True
    then have "isNaN (ToNumber (element ?nums 3))"
      by (simp add: element_def ToNumber_def isNaN_def)
    then show ?thesis by (intro exI [of _ 3]) simp
  next
    case long: False
    with assms False obtain i where "i < 4" and "isNaN (Number (?comps ! i))" by auto
    with long have "isNaN (ToNumber (element ?nums i))"
      by (simp add: element_def ToNumber_def)
    with \<open>i < 4\<close> show ?thesis by (intro exI [of _ i]) simp
  qed
  then obtain i where "i < 4" and nan: "isNaN (ToNumber (element ?nums i))" by auto
  then have "i = 0 \<or> i = 1 \<or> i = 2 \<or> i = 3" by auto
  with nan show ?thesis
    by (auto simp add: handleHashChange_def Let_def)
qed

theorem handleHashChange_malformed_witness:
  "isNaN (Number ''abc'') \<and>
   handleHashChange (initial_state ''/'' '''' ''#abc,1,2,3'') = initial_state ''/'' '''' ''#abc,1,2,3'' \<and>
   handleHashChange (drawing_state\<lparr>location_hash := ''#1,2,3''\<rparr>) =
     drawing_state\<lparr>location_hash := ''#1,2,3''\<rparr> \<and>
   handleHashChange (initial_state ''/'' '''' '''') = initial_state ''/'' '''' ''''"
proof -
  let ?s1 = "initial_state ''/'' '''' ''#abc,1,2,3''"
  let ?s2 = "drawing_state\<lparr>location_hash := ''#1,2,3''\<rparr>"
  let ?s3 = "initial_state ''/'' '''' ''''"
  have nan: "isNaN (Number ''abc'')"
    by (simp add: number_eval isNaN_def)
  have "split_at CHR '','' (drop 1 (location_hash ?s1)) = [''abc'', ''1'', ''2'', ''3'']"
    by (simp add: initial_state_def)
  with nan have "\<exists>i<4. isNaN (Number (split_at CHR '','' (drop 1 (location_hash ?s1)) ! i))"
    by (intro exI [of _ 0]) simp
  then have h1: "handleHashChange ?s1 = ?s1"
    using handleHashChange_malformed [of ?s1] by blast
  have "length (split_at CHR '','' (drop 1 (location_hash ?s2))) < 4"
    by simp
  then have h2: "handleHashChange ?s2 = ?s2"
    using handleHashChange_malformed [of ?s2] by blast
  have "drop 1 (location_hash ?s3) = []"
    by (simp add: initial_state_def)
  then have h3: "handleHashChange ?s3 = ?s3"
    using handleHashChange_malformed [of ?s3] by blast
  from nan h1 h2 h3 show ?thesis by simp
qed

text \<open>
  Claim C4. For a fragment of four comma-separated components \<open>lon1,lat1,lon2,lat2\<close> that
  all convert to numbers, the handler replaces the box by \<open>{start: [lon1, lat1], end:
  [lon2, lat2]}\<close>, the corners in the order of the fragment, and sets the fit-to-bounds
  flag; at the next render of a mounted map \<^verbatim>\<open>fitBounds\<close> is called with the southwest and
  northeast corners of that box, padding 160 and duration 150, and the flag is cleared.
  The fragment \<^verbatim>\<open>#-10,20,-5,25\<close> gives the box displayed as \<^verbatim>\<open>-10,20,-5,25\<close> and a fit
  to longitude \<open>[-10, -5]\<close>, latitude \<open>[20, 25]\<close>.
\<close>

theorem handleHashChange_valid:
  assumes "split_at CHR '','' (drop 1 (location_hash s)) = [c1, c2, c3, c4]"
    and "\<not> isNaN (Number c1)" and "\<not> isNaN (Number c2)"
    and "\<not> isNaN (Number c3)" and "\<not> isNaN (Number c4)"
  shows "handleHashChange s =
           s\<lparr>boundingBox := \<lparr>start = Some (Number c1, Number c2), end' = Some (Number c3, Number c4)\<rparr>,
             fitToBoundsNextRender := True\<rparr> \<and>
         (\<forall>m. mapRef s = Some m \<longrightarrow>
            fitToBoundsIfRequested (handleHashChange s) =
              (handleHashChange s)
                \<lparr>mapRef := Some (m\<lparr>calls := calls m @
                    [FitBounds (Math_min (Number c1) (Number c3), Math_min (Number c2) (Number c4))
                               (Math_max (Number c1) (Number c3), Math_max (Number c2) (Number c4))
                               160 150]\<rparr>),
                 fitToBoundsNextRender := False\<rparr>)"
  using handleHashChange_accepts [OF assms]
  by (simp add: fitToBoundsIfRequested_def FIT_BOUNDS_PADDING_def FIT_BOUNDS_ANIMATION_DURATION_MS_def)

theorem handleHashChange_valid_witness:
  "split_at CHR '','' (drop 1 (location_hash (initial_state ''/'' '''' ''#-10,20,-5,25''))) =
     [''-10'', ''20'', ''-5'', ''25''] \<and>
   Number ''-10'' = Fin (- 10) \<and> Number ''20'' = Fin 20 \<and> Number ''-5'' = Fin (- 5) \<and> Number ''25'' = Fin 25 \<and>
   handleHashChange (initial_state ''/'' '''' ''#-10,20,-5,25'') =
     (initial_state ''/'' '''' ''#-10,20,-5,25'')
       \<lparr>boundingBox := \<lparr>start = Some (Fin (- 10), Fin 20), end' = Some (Fin (- 5), Fin 25)\<rparr>,
        fitToBoundsNextRender := True\<rparr> \<and>
   formatBoundingBox (Some (Fin (- 10), Fin 20)) (Some (Fin (- 5), Fin 25)) no_options = ''-10,20,-5,25'' \<and>
   mapRef (fitToBoundsIfRequested (handleHashChange (initial_state ''/'' '''' ''#-10,20,-5,25''))) =
     Some (empty_map\<lparr>calls := [FitBounds (Fin (- 10), Fin 20) (Fin (- 5), Fin 25) 160 150]\<rparr>) \<and>
   \<not> fitToBoundsNextRender (fitToBoundsIfRequested (handleHashChange (initial_state ''/'' '''' ''#-10,20,-5,25'')))"
proof -
  let ?s = "initial_state ''/'' '''' ''#-10,20,-5,25''"
  have sp: "split_at CHR '','' (drop 1 (location_hash ?s)) = [''-10'', ''20'', ''-5'', ''25'']"
    by (simp add: initial_state_def)
  have n: "Number ''-10'' = Fin (- 10)" "Number ''20'' = Fin 20" "Number ''-5'' = Fin (- 5)"
    "Number ''25'' = Fin 25"
    by (simp_all add: number_eval)
  have nn: "\<not> isNaN (Number ''-10'')" "\<not> isNaN (Number ''20'')" "\<not> isNaN (Number ''-5'')"
    "\<not> isNaN (Number ''25'')"
    by (simp_all add: n isNaN_def)
  have m: "Math_min (Fin (- 10)) (Fin (- 5)) = Fin (- 10)" "Math_min (Fin 20) (Fin 25) = Fin 20"
    "Math_max (Fin (- 10)) (Fin (- 5)) = Fin (- 5)" "Math_max (Fin 20) (Fin 25) = Fin 25"
    by (simp_all add: Math_min_def Math_max_def js_lt_def)
  have c: "formatCoordinate (Fin (- 10)) = ''-10''" "formatCoordinate (Fin 20) = ''20''"
    "formatCoordinate (Fin (- 5)) = ''-5''" "formatCoordinate (Fin 25) = ''25''"
    by (simp_all add: number_eval)
  have f: "formatBoundingBox (Some (Fin (- 10), Fin 20)) (Some (Fin (- 5), Fin 25)) no_options =
      ''-10,20,-5,25''"
    unfolding formatBoundingBox_default m c by simp
  have r: "mapRef ?s = Some empty_map" "calls empty_map = []"
    by (simp_all add: initial_state_def empty_map_def)
  note v = handleHashChange_valid [OF sp nn]
  from v have box: "handleHashChange ?s =
      ?s\<lparr>boundingBox := \<lparr>start = Some (Fin (- 10), Fin 20), end' = Some (Fin (- 5), Fin 25)\<rparr>,
         fitToBoundsNextRender := True\<rparr>"
    by (simp add: n)
  from v r(1) have "fitToBoundsIfRequested (handleHashChange ?s) =
      (handleHashChange ?s)
        \<lparr>mapRef := Some (empty_map\<lparr>calls := calls empty_map @
            [FitBounds (Math_min (Number ''-10'') (Number ''-5''), Math_min (Number ''20'') (Number ''25''))
                       (Math_max (Number ''-10'') (Number ''-5''), Math_max (Number ''20'') (Number ''25''))
                       160 150]\<rparr>),
         fitToBoundsNextRender := False\<rparr>"
    by blast
  then have fit: "fitToBoundsIfRequested (handleHashChange ?s) =
      (handleHashChange ?s)
        \<lparr>mapRef := Some (empty_map\<lparr>calls := [FitBounds (Fin (- 10), Fin 20) (Fin (- 5), Fin 25) 160 150]\<rparr>),
         fitToBoundsNextRender := False\<rparr>"
    by (simp add: n m r)
  show ?thesis
    unfolding fit unfolding box using sp n f by simp
qed


section \<open>The end of a drag\<close>

text \<open>
  Claim C5, as amended. When the end-drag transition fires (the rectangle tool is still the
  active tool, a drag is in progress and its start is set) with a pointer-up coordinate that
  is component-wise identical (\<^verbatim>\<open>===\<close>) to the stored start, the handler resets the box
  to \<open>{start: null, end: null}\<close>, pushes the URL with an empty fragment (the location's
  fragment is then empty), and leaves the fit-to-bounds flag as it was.
\<close>

theorem handleMouseUp_degenerate:
  assumes "activeTool s = rectangle" and "isDrawing s" and "start (boundingBox s) = Some st"
    and "strict_eq (fst st) (fst p)" and "strict_eq (snd st) (snd p)"
  shows "boundingBox (handleMouseUp p s) = \<lparr>start = None, end' = None\<rparr> \<and>
         history (handleMouseUp p s) = history s @ [location_pathname s @ location_search s @ ''#''] \<and>
         (CHR ''#'' \<notin> set (location_pathname s @ location_search s) \<longrightarrow>
            location_hash (handleMouseUp p s) = []) \<and>
         fitToBoundsNextRender (handleMouseUp p s) = fitToBoundsNextRender s"
proof -
  have "CHR ''#'' \<notin> set (location_pathname s @ location_search s) \<Longrightarrow>
      location_hash (updateURL None None (s\<lparr>boundingBox := \<lparr>start = None, end' = None\<rparr>,
        isDrawing := False, activeTool := hand\<rparr>)) = []"
    using pushState_location_hash [of "location_pathname s @ location_search s" "[]"]
    by (simp add: updateURL_def Let_def fragment_encode_def)
  then show ?thesis
    using assms by (simp add: handleMouseUp_def Let_def)
qed

theorem handleMouseUp_degenerate_witness:
  "strict_eq (Fin 151) (Fin 151) \<and> strict_eq (Fin (- 33)) (Fin (- 33)) \<and>
   boundingBox (handleMouseUp (Fin 151, Fin (- 33)) drawing_state) = \<lparr>start = None, end' = None\<rparr> \<and>
   history (handleMouseUp (Fin 151, Fin (- 33)) drawing_state) = [''/#''] \<and>
   location_hash (handleMouseUp (Fin 151, Fin (- 33)) drawing_state) = [] \<and>
   \<not> fitToBoundsNextRender (handleMouseUp (Fin 151, Fin (- 33)) drawing_state)"
proof -
  have e: "strict_eq (fst (Fin 151, Fin (- 33))) (fst (Fin 151, Fin (- 33)))"
    "strict_eq (snd (Fin 151, Fin (- 33))) (snd (Fin 151, Fin (- 33)))"
    by (simp_all add: strict_eq_def)
  show ?thesis
    using handleMouseUp_degenerate [OF drawing_state_guard e] e drawing_state_fields by simp
qed

text \<open>
  As stated, for every drag that ends on its start, the claim fails: the key \<^verbatim>\<open>h\<close> pressed
  during a drag makes \<open>hand\<close> the active tool while \<open>isDrawing\<close> stays true and \<open>start\<close> stays
  set, and the guard of \<^verbatim>\<open>handleMouseUp\<close> (line 168) then returns before anything is
  reset: the pointer-up on the start coordinate leaves the half-drawn box in place and pushes
  no URL.
\<close>

theorem handleMouseUp_degenerate_hand_tool_counterexample:
  "run [KeyDown (plain_key ''r''), MouseDown (Fin 151, Fin (- 33)), KeyDown (plain_key ''h'')]
       (initial_state ''/'' '''' '''') = drawing_state\<lparr>activeTool := hand\<rparr> \<and>
   isDrawing (drawing_state\<lparr>activeTool := hand\<rparr>) \<and>
   start (boundingBox (drawing_state\<lparr>activeTool := hand\<rparr>)) = Some (Fin 151, Fin (- 33)) \<and>
   strict_eq (Fin 151) (Fin 151) \<and> strict_eq (Fin (- 33)) (Fin (- 33)) \<and>
   handleMouseUp (Fin 151, Fin (- 33)) (drawing_state\<lparr>activeTool := hand\<rparr>) =
     drawing_state\<lparr>activeTool := hand\<rparr> \<and>
   boundingBox (handleMouseUp (Fin 151, Fin (- 33)) (drawing_state\<lparr>activeTool := hand\<rparr>)) =
     \<lparr>start = Some (Fin 151, Fin (- 33)), end' = None\<rparr> \<and>
   history (handleMouseUp (Fin 151, Fin (- 33)) (drawing_state\<lparr>activeTool := hand\<rparr>)) = []"
  by (simp add: drawing_state_def step_def handleKeyDown_def plain_key_def handleMouseDown_def
      initial_state_def renderBoundingBox_def Let_def empty_map_def handleMouseUp_def strict_eq_def)

text \<open>
  Claim C6, as amended. When the end-drag transition fires (the rectangle tool is still the
  active tool, a drag is in progress and its start is set) with a pointer-up coordinate that
  differs from the start in at least one component, the handler keeps \<open>{start, end}\<close>, pushes
  the URL whose fragment is the southwest-first string \<^verbatim>\<open>minLon,minLat,maxLon,maxLat\<close> (for
  finite coordinates that string is then the fragment of the location), and sets the
  fit-to-bounds flag. The update is a history entry, not a load: the map and the map style
  stay as they are. The drag from \<open>(151, -33)\<close> to \<open>(150, -34)\<close> writes \<^verbatim>\<open>150,-34,151,-33\<close>.
\<close>

theorem handleMouseUp_keeps_box:
  assumes "activeTool s = rectangle" and "isDrawing s" and "start (boundingBox s) = Some st"
    and "\<not> (strict_eq (fst st) (fst p) \<and> strict_eq (snd st) (snd p))"
  shows "boundingBox (handleMouseUp p s) = \<lparr>start = Some st, end' = Some p\<rparr> \<and>
         history (handleMouseUp p s) = history s @
           [location_pathname s @ location_search s @ ''#'' @
            join '','' [formatCoordinate (Math_min (fst st) (fst p)),
                        formatCoordinate (Math_min (snd st) (snd p)),
                        formatCoordinate (Math_max (fst st) (fst p)),
                        formatCoordinate (Math_max (snd st) (snd p))]] \<and>
         (CHR ''#'' \<notin> set (location_pathname s @ location_search s) \<and>
          isFinite (fst st) \<and> isFinite (snd st) \<and> isFinite (fst p) \<and> isFinite (snd p) \<longrightarrow>
            location_hash (handleMouseUp p s) =
              ''#'' @ join '','' [formatCoordinate (Math_min (fst st) (fst p)),
                                  formatCoordinate (Math_min (snd st) (snd p)),
                                  formatCoordinate (Math_max (fst st) (fst p)),
                                  formatCoordinate (Math_max (snd st) (snd p))]) \<and>
         fitToBoundsNextRender (handleMouseUp p s) \<and>
         activeTool (handleMouseUp p s) = hand \<and> mapStyle (handleMouseUp p s) = mapStyle s \<and>
         mapRef (handleMouseUp p s) = mapRef s"
proof -
  obtain lon1 lat1 lon2 lat2 where st: "st = (lon1, lat1)" and p: "p = (lon2, lat2)"
    by (cases st, cases p) auto
  let ?s2 = "s\<lparr>boundingBox := \<lparr>start = Some (lon1, lat1), end' = Some (lon2, lat2)\<rparr>,
                isDrawing := False, activeTool := hand\<rparr>"
  have up: "handleMouseUp (lon2, lat2) s =
      (updateURL (Some (lon1, lat1)) (Some (lon2, lat2)) ?s2)\<lparr>fitToBoundsNextRender := True\<rparr>"
    using assms unfolding st p by (auto simp add: handleMouseUp_def Let_def)
  have hash: "location_hash (handleMouseUp (lon2, lat2) s) =
      ''#'' @ formatBoundingBox (Some (lon1, lat1)) (Some (lon2, lat2)) no_options"
    if "CHR ''#'' \<notin> set (location_pathname s @ location_search s)"
      and "isFinite lon1" and "isFinite lat1" and "isFinite lon2" and "isFinite lat2"
    using updateURL_location_hash [of ?s2, OF _ that(2-5)] that(1) by (simp add: up)
  show ?thesis
    unfolding st p using hash by (simp add: up formatBoundingBox_default)
qed

theorem handleMouseUp_keeps_box_witness:
  "\<not> (strict_eq (Fin 151) (Fin 150) \<and> strict_eq (Fin (- 33)) (Fin (- 34))) \<and>
   boundingBox (handleMouseUp (Fin 150, Fin (- 34)) drawing_state) =
     \<lparr>start = Some (Fin 151, Fin (- 33)), end' = Some (Fin 150, Fin (- 34))\<rparr> \<and>
   history (handleMouseUp (Fin 150, Fin (- 34)) drawing_state) = [''/#150,-34,151,-33''] \<and>
   location_hash (handleMouseUp (Fin 150, Fin (- 34)) drawing_state) = ''#150,-34,151,-33'' \<and>
   fitToBoundsNextRender (handleMouseUp (Fin 150, Fin (- 34)) drawing_state)"
proof -
  have e: "\<not> (strict_eq (fst (Fin 151, Fin (- 33))) (fst (Fin 150, Fin (- 34))) \<and>
              strict_eq (snd (Fin 151, Fin (- 33))) (snd (Fin 150, Fin (- 34))))"
    by (simp add: strict_eq_def)
  have m: "Math_min (Fin 151) (Fin 150) = Fin 150" "Math_min (Fin (- 33)) (Fin (- 34)) = Fin (- 34)"
    "Math_max (Fin 151) (Fin 150) = Fin 151" "Math_max (Fin (- 33)) (Fin (- 34)) = Fin (- 33)"
    by (simp_all add: Math_min_def Math_max_def js_lt_def)
  have c: "formatCoordinate (Fin 150) = ''150''" "formatCoordinate (Fin (- 34)) = ''-34''"
    "formatCoordinate (Fin 151) = ''151''" "formatCoordinate (Fin (- 33)) = ''-33''"
    by (simp_all add: number_eval)
  show ?thesis
    using handleMouseUp_keeps_box [OF drawing_state_guard e] e drawing_state_fields m c
    by (simp add: strict_eq_def isFinite_def)
qed

text \<open>
  As stated, for every drag that ends away from its start, the claim fails in the same
  reachable state: once \<^verbatim>\<open>h\<close> has made \<open>hand\<close> the active tool during the drag, the guard of
  \<^verbatim>\<open>handleMouseUp\<close> (line 168) returns at once, so the pointer-up at \<open>(150, -34)\<close> after a
  pointer-down at \<open>(151, -33)\<close> stores no \<open>end\<close>, pushes no URL and sets no fit-to-bounds flag.
\<close>

theorem handleMouseUp_keeps_box_hand_tool_counterexample:
  "run [KeyDown (plain_key ''r''), MouseDown (Fin 151, Fin (- 33)), KeyDown (plain_key ''h'')]
       (initial_state ''/'' '''' '''') = drawing_state\<lparr>activeTool := hand\<rparr> \<and>
   isDrawing (drawing_state\<lparr>activeTool := hand\<rparr>) \<and>
   start (boundingBox (drawing_state\<lparr>activeTool := hand\<rparr>)) = Some (Fin 151, Fin (- 33)) \<and>
   \<not> strict_eq (Fin 151) (Fin 150) \<and>
   end' (boundingBox (handleMouseUp (Fin 150, Fin (- 34)) (drawing_state\<lparr>activeTool := hand\<rparr>))) = None \<and>
   history (handleMouseUp (Fin 150, Fin (- 34)) (drawing_state\<lparr>activeTool := hand\<rparr>)) = [] \<and>
   location_hash (handleMouseUp (Fin 150, Fin (- 34)) (drawing_state\<lparr>activeTool := hand\<rparr>)) = [] \<and>
   \<not> fitToBoundsNextRender (handleMouseUp (Fin 150, Fin (- 34)) (drawing_state\<lparr>activeTool := hand\<rparr>))"
  by (simp add: drawing_state_def step_def handleKeyDown_def plain_key_def handleMouseDown_def
      initial_state_def renderBoundingBox_def Let_def empty_map_def handleMouseUp_def strict_eq_def)


section \<open>Pointer moves during a drag\<close>

text \<open>
  Claim C7, as amended. While a drag is in progress (\<open>isDrawing\<close>, start set) and the rectangle
  tool is still the active tool, every pointer-move event sets \<open>end\<close> to the coordinate of
  the event and leaves \<open>start\<close> and the rest of the state unchanged.
\<close>

theorem handleMouseMove_updates_end:
  assumes "activeTool s = rectangle" and "isDrawing s" and "start (boundingBox s) = Some st"
  shows "handleMouseMove p s = s\<lparr>boundingBox := \<lparr>start = Some st, end' = Some p\<rparr>\<rparr>"
  using assms by (simp add: handleMouseMove_def)

theorem handleMouseMove_updates_end_witness:
  "activeTool drawing_state = rectangle \<and> isDrawing drawing_state \<and>
   handleMouseMove (Fin 150, Fin (- 34)) drawing_state =
     drawing_state\<lparr>boundingBox := \<lparr>start = Some (Fin 151, Fin (- 33)), end' = Some (Fin 150, Fin (- 34))\<rparr>\<rparr>"
  using drawing_state_guard
    handleMouseMove_updates_end [OF drawing_state_guard, of "(Fin 150, Fin (- 34))"]
  by simp

text \<open>
  As stated, with the drag-move transition firing whenever the controller is drawing, the
  claim fails: the key \<^verbatim>\<open>h\<close> pressed during a drag makes \<open>hand\<close> the active tool while
  \<open>isDrawing\<close> stays true and \<open>start\<close> stays set, and the guard of \<^verbatim>\<open>handleMouseMove\<close> (line
  154) then returns before \<open>end\<close> is touched.
\<close>

theorem handleMouseMove_hand_tool_counterexample:
  "run [KeyDown (plain_key ''r''), MouseDown (Fin 151, Fin (- 33)), KeyDown (plain_key ''h'')]
       (initial_state ''/'' '''' '''') = drawing_state\<lparr>activeTool := hand\<rparr> \<and>
   isDrawing (drawing_state\<lparr>activeTool := hand\<rparr>) \<and>
   start (boundingBox (drawing_state\<lparr>activeTool := hand\<rparr>)) = Some (Fin 151, Fin (- 33)) \<and>
   end' (boundingBox (handleMouseMove (Fin 150, Fin (- 34)) (drawing_state\<lparr>activeTool := hand\<rparr>))) = None"
  by (simp add: drawing_state_def step_def handleKeyDown_def plain_key_def handleMouseDown_def
      initial_state_def renderBoundingBox_def Let_def empty_map_def handleMouseMove_def)


section \<open>The tool after a drag\<close>

text \<open>
  Claim C8. After every completed drag, that is whenever the end-drag transition fires (the
  rectangle tool is active, a drag is in progress and its start is set), the active tool is
  \<open>hand\<close> and \<open>isDrawing\<close> is false, whether the box was kept or reset.
\<close>

theorem handleMouseUp_returns_to_hand:
  assumes "activeTool s = rectangle" and "isDrawing s" and "start (boundingBox s) = Some st"
  shows "activeTool (handleMouseUp p s) = hand \<and> \<not> isDrawing (handleMouseUp p s)"
  using assms by (simp add: handleMouseUp_def Let_def)

text \<open>The drag from \<open>(151, -33)\<close>, released at \<open>(150, -34)\<close> (a box is kept) and released
  where it started (the box is reset).\<close>

theorem handleMouseUp_returns_to_hand_witness:
  "activeTool drawing_state = rectangle \<and> isDrawing drawing_state \<and>
   activeTool (handleMouseUp (Fin 150, Fin (- 34)) drawing_state) = hand \<and>
   \<not> isDrawing (handleMouseUp (Fin 150, Fin (- 34)) drawing_state) \<and>
   activeTool (handleMouseUp (Fin 151, Fin (- 33)) drawing_state) = hand \<and>
   \<not> isDrawing (handleMouseUp (Fin 151, Fin (- 33)) drawing_state)"
  using drawing_state_guard
    handleMouseUp_returns_to_hand [OF drawing_state_guard, of "(Fin 150, Fin (- 34))"]
    handleMouseUp_returns_to_hand [OF drawing_state_guard, of "(Fin 151, Fin (- 33))"]
  by simp


section \<open>The overlay\<close>

text \<open>
  Claim C9. For a box with both corners set, on a mounted map, the data of the overlay
  source becomes the polygon with the single closed ring start, \<open>(end.lon, start.lat)\<close>,
  end, \<open>(start.lon, end.lat)\<close>, start, built from the raw corners (the two layers are added
  with the source, once). When a corner is null the data of the overlay source is
  replaced by an empty feature collection; where the map has no overlay source yet there
  is nothing to replace, and nothing changes. Without a mounted map nothing is rendered.
\<close>

theorem renderBoundingBox_overlay:
  "(start box = Some (lon1, lat1) \<and> end' box = Some (lon2, lat2) \<and> mapRef s = Some m \<longrightarrow>
      renderBoundingBox box s =
        s\<lparr>mapRef := Some (m\<lparr>sources := (sources m)(''bbox-source'' \<mapsto>
                 Feature (Polygon [[(lon1, lat1), (lon2, lat1), (lon2, lat2), (lon1, lat2), (lon1, lat1)]])),
               layers := (if sources m ''bbox-source'' = None
                          then layers m @ [bbox_fill, bbox_outline] else layers m)\<rparr>)\<rparr>) \<and>
   ((start box = None \<or> end' box = None) \<and> mapRef s = Some m \<and> sources m ''bbox-source'' \<noteq> None \<longrightarrow>
      renderBoundingBox box s =
        s\<lparr>mapRef := Some (m\<lparr>sources := (sources m)(''bbox-source'' \<mapsto> FeatureCollection [])\<rparr>)\<rparr>) \<and>
   ((start box = None \<or> end' box = None) \<and> mapRef s = Some m \<and> sources m ''bbox-source'' = None \<longrightarrow>
      renderBoundingBox box s = s) \<and>
   (mapRef s = None \<longrightarrow> renderBoundingBox box s = s)"
  by (auto simp add: renderBoundingBox_def Let_def split: option.splits)

theorem renderBoundingBox_overlay_witness:
  "renderBoundingBox \<lparr>start = Some (Fin 151, Fin (- 33)), end' = Some (Fin 150, Fin (- 34))\<rparr>
       (initial_state ''/'' '''' '''') =
     (initial_state ''/'' '''' '''')
       \<lparr>mapRef := Some \<lparr>sources = [''bbox-source'' \<mapsto>
            Feature (Polygon [[(Fin 151, Fin (- 33)), (Fin 150, Fin (- 33)), (Fin 150, Fin (- 34)),
                               (Fin 151, Fin (- 34)), (Fin 151, Fin (- 33))]])],
          layers = [bbox_fill, bbox_outline], calls = []\<rparr>\<rparr> \<and>
   renderBoundingBox \<lparr>start = Some (Fin 151, Fin (- 33)), end' = None\<rparr>
       ((initial_state ''/'' '''' '''')
          \<lparr>mapRef := Some (empty_map\<lparr>sources := [''bbox-source'' \<mapsto> Feature (Polygon [])]\<rparr>)\<rparr>) =
     (initial_state ''/'' '''' '''')
       \<lparr>mapRef := Some (empty_map\<lparr>sources := [''bbox-source'' \<mapsto> FeatureCollection []]\<rparr>)\<rparr> \<and>
   renderBoundingBox \<lparr>start = None, end' = None\<rparr> (initial_state ''/'' '''' '''') =
     initial_state ''/'' '''' '''' \<and>
   renderBoundingBox \<lparr>start = Some (Fin 151, Fin (- 33)), end' = Some (Fin 150, Fin (- 34))\<rparr>
       ((initial_state ''/'' '''' '''')\<lparr>mapRef := None\<rparr>) =
     (initial_state ''/'' '''' '''')\<lparr>mapRef := None\<rparr>"
proof -
  let ?s = "initial_state ''/'' '''' ''''"
  let ?m = "empty_map\<lparr>sources := [''bbox-source'' \<mapsto> Feature (Polygon [])]\<rparr>"
  have a: "mapRef ?s = Some empty_map" "sources empty_map ''bbox-source'' = None"
    "layers empty_map = []"
    by (simp_all add: initial_state_def empty_map_def)
  have 1: "renderBoundingBox \<lparr>start = Some (Fin 151, Fin (- 33)), end' = Some (Fin 150, Fin (- 34))\<rparr> ?s =
      ?s\<lparr>mapRef := Some (empty_map\<lparr>sources := (sources empty_map)(''bbox-source'' \<mapsto>
             Feature (Polygon [[(Fin 151, Fin (- 33)), (Fin 150, Fin (- 33)), (Fin 150, Fin (- 34)),
                                (Fin 151, Fin (- 34)), (Fin 151, Fin (- 33))]])),
           layers := layers empty_map @ [bbox_fill, bbox_outline]\<rparr>)\<rparr>"
    using renderBoundingBox_overlay [of "\<lparr>start = Some (Fin 151, Fin (- 33)), end' = Some (Fin 150, Fin (- 34))\<rparr>"
        "Fin 151" "Fin (- 33)" "Fin 150" "Fin (- 34)" ?s empty_map] a
    by simp
  have 2: "renderBoundingBox \<lparr>start = Some (Fin 151, Fin (- 33)), end' = None\<rparr> (?s\<lparr>mapRef := Some ?m\<rparr>) =
      ?s\<lparr>mapRef := Some ?m\<rparr>\<lparr>mapRef := Some (?m\<lparr>sources := (sources ?m)(''bbox-source'' \<mapsto> FeatureCollection [])\<rparr>)\<rparr>"
    using renderBoundingBox_overlay [of "\<lparr>start = Some (Fin 151, Fin (- 33)), end' = None\<rparr>"
        NaN NaN NaN NaN "?s\<lparr>mapRef := Some ?m\<rparr>" ?m]
    by simp
  have 3: "renderBoundingBox \<lparr>start = None, end' = None\<rparr> ?s = ?s"
    using renderBoundingBox_overlay [of "\<lparr>start = None, end' = None\<rparr>" NaN NaN NaN NaN ?s empty_map] a
    by simp
  have 4: "renderBoundingBox \<lparr>start = Some (Fin 151, Fin (- 33)), end' = Some (Fin 150, Fin (- 34))\<rparr>
      (?s\<lparr>mapRef := None\<rparr>) = ?s\<lparr>mapRef := None\<rparr>"
    using renderBoundingBox_overlay [of "\<lparr>start = Some (Fin 151, Fin (- 33)), end' = Some (Fin 150, Fin (- 34))\<rparr>"
        NaN NaN NaN NaN "?s\<lparr>mapRef := None\<rparr>" empty_map]
    by simp
  show ?thesis
    unfolding 1 2 3 4 by (simp add: empty_map_def)
qed


section \<open>Empty and surplus components of a fragment\<close>

text \<open>
  Claim C10. \<^verbatim>\<open>Number\<close> converts the empty string to \<open>0\<close>, so the fragment \<^verbatim>\<open>#,,,\<close> is
  accepted as four numbers and replaces the box by start \<open>[0, 0]\<close> and end \<open>[0, 0]\<close>; and
  components after the fourth are ignored: they change neither whether a fragment is
  accepted nor the box it gives.
\<close>

theorem handleHashChange_empty_components:
  "Number [] = Fin 0 \<and>
   handleHashChange (s\<lparr>location_hash := ''#,,,''\<rparr>) =
     s\<lparr>location_hash := ''#,,,'',
       boundingBox := \<lparr>start = Some (Fin 0, Fin 0), end' = Some (Fin 0, Fin 0)\<rparr>,
       fitToBoundsNextRender := True\<rparr> \<and>
   (split_at CHR '','' (drop 1 (location_hash s)) = c1 # c2 # c3 # c4 # rest \<and>
    \<not> isNaN (Number c1) \<and> \<not> isNaN (Number c2) \<and> \<not> isNaN (Number c3) \<and> \<not> isNaN (Number c4) \<longrightarrow>
      handleHashChange s =
        s\<lparr>boundingBox := \<lparr>start = Some (Number c1, Number c2), end' = Some (Number c3, Number c4)\<rparr>,
          fitToBoundsNextRender := True\<rparr>)"
proof -
  have zero: "Number [] = Fin 0"
    by (simp add: number_eval)
  let ?s = "s\<lparr>location_hash := ''#,,,''\<rparr>"
  have "split_at CHR '','' (drop 1 (location_hash ?s)) = [[], [], [], []]"
    by simp
  then have "handleHashChange ?s =
      ?s\<lparr>boundingBox := \<lparr>start = Some (Number [], Number []), end' = Some (Number [], Number [])\<rparr>,
         fitToBoundsNextRender := True\<rparr>"
    by (rule handleHashChange_accepts) (simp_all add: zero isNaN_def)
  with zero show ?thesis
    using handleHashChange_accepts [of s c1 c2 c3 c4 rest] by simp
qed

theorem handleHashChange_empty_components_witness:
  "split_at CHR '','' (drop 1 (location_hash (initial_state ''/'' '''' ''#1,2,3,4,5,x''))) =
     [''1'', ''2'', ''3'', ''4'', ''5'', ''x''] \<and>
   handleHashChange (initial_state ''/'' '''' ''#1,2,3,4,5,x'') =
     (initial_state ''/'' '''' ''#1,2,3,4,5,x'')
       \<lparr>boundingBox := \<lparr>start = Some (Fin 1, Fin 2), end' = Some (Fin 3, Fin 4)\<rparr>,
        fitToBoundsNextRender := True\<rparr> \<and>
   handleHashChange (initial_state ''/'' '''' ''#,,,'') =
     (initial_state ''/'' '''' ''#,,,'')
       \<lparr>boundingBox := \<lparr>start = Some (Fin 0, Fin 0), end' = Some (Fin 0, Fin 0)\<rparr>,
        fitToBoundsNextRender := True\<rparr>"
proof -
  let ?s = "initial_state ''/'' '''' ''#1,2,3,4,5,x''"
  have sp: "split_at CHR '','' (drop 1 (location_hash ?s)) = [''1'', ''2'', ''3'', ''4'', ''5'', ''x'']"
    by (simp add: initial_state_def)
  have n: "Number ''1'' = Fin 1" "Number ''2'' = Fin 2" "Number ''3'' = Fin 3" "Number ''4'' = Fin 4"
    by (simp_all add: number_eval)
  have e: "(initial_state ''/'' '''' ''#,,,'') = (initial_state ''/'' '''' [])\<lparr>location_hash := ''#,,,''\<rparr>"
    by (simp add: initial_state_def)
  show ?thesis
    using handleHashChange_empty_components [of ?s "''1''" "''2''" "''3''" "''4''" "[''5'', ''x'']"]
      handleHashChange_empty_components [of "initial_state ''/'' '''' []" "[]" "[]" "[]" "[]" "[]"]
      sp n e
    by (simp add: isNaN_def)
qed

end
